theory Spec2Isabelle
  imports Main "HOL-Library.AList" "HOL-Library.Multiset"
begin

section \<open>The terminal manager of the renderer process\<close>

text \<open>
  A shallow embedding of the class \<^verbatim>\<open>TerminalManager\<close> (terminalManager.js).
  The object becomes a record; every method takes the record and returns the updated one.
  What the manager does to the outside world is recorded in the record as logs:
  the messages handed to \<^verbatim>\<open>ipcRenderer.send\<close>, the snapshots handed to the
  \<^verbatim>\<open>onStateChange\<close> callback, and the emulators disposed of.
  Of the DOM the model keeps which container holds the element of a terminal; input
  focus is not part of the model.
\<close>

subsection \<open>Values of the source language\<close>

type_synonym terminal_id = string

text \<open>JavaScript truthiness of a string, and of a string that may be \<^verbatim>\<open>null\<close> or
  \<^verbatim>\<open>undefined\<close>.\<close>

definition truthy :: "string \<Rightarrow> bool" where
  "truthy x = (x \<noteq> [])"

fun truthy_opt :: "string option \<Rightarrow> bool" where
  "truthy_opt None = False"
| "truthy_opt (Some x) = truthy x"

text \<open>The decimal numeral a template literal prints for a non-negative integer.\<close>

fun decimal :: "nat \<Rightarrow> string" where
  "decimal n =
     (if n < 10 then [''0123456789'' ! n]
      else decimal (n div 10) @ [''0123456789'' ! (n mod 10)])"

declare decimal.simps [simp del]

subsection \<open>Data\<close>

text \<open>The \<^verbatim>\<open>state\<close> object of one terminal, as built in \<^verbatim>\<open>_initializeTerminal\<close>.
  The field \<^verbatim>\<open>id\<close> is called \<open>state_id\<close> here.\<close>

record terminal_state =
  state_id :: terminal_id
  name :: string
  customName :: "string option"
  isActive :: bool
  createdAt :: nat

text \<open>The xterm.js \<^verbatim>\<open>Terminal\<close> object, as far as the manager reads and writes it:
  its size and the data written to it.\<close>

record emulator =
  cols :: nat
  rows :: nat
  written :: "string list"

text \<open>The container elements of the page that \<^verbatim>\<open>mountTerminal\<close> is given, and the
  \<^verbatim>\<open>div\<close> element of one terminal, as far as mounting goes: the container it is a child
  of, if any.\<close>

type_synonym container = nat

record dom_element =
  parentNode :: "container option"

text \<open>One value of the map \<^verbatim>\<open>this.terminals\<close>. The property \<^verbatim>\<open>opened\<close> is absent
  (falsy) until \<^verbatim>\<open>mountTerminal\<close> sets it.\<close>

record terminal_instance =
  terminal :: emulator
  element :: dom_element
  state :: terminal_state
  opened :: bool

text \<open>The argument of \<^verbatim>\<open>createTerminal\<close>: both properties are optional.\<close>

record options =
  opt_name :: "string option"
  opt_cwd :: "string option"

text \<open>Messages the manager hands to \<^verbatim>\<open>ipcRenderer.send\<close>, named after their channels.\<close>

datatype ipc_message =
    TERMINAL_CREATE "string option"
  | TERMINAL_DESTROY terminal_id
  | TERMINAL_INPUT_ID terminal_id string
  | TERMINAL_RESIZE_ID terminal_id nat nat

text \<open>The reply of the main process on the channel \<^verbatim>\<open>TERMINAL_CREATED\<close>:
  \<^verbatim>\<open>{success: true, terminalId}\<close> or \<^verbatim>\<open>{success: false, error}\<close>.\<close>

datatype create_response = Success terminal_id | Failure string

text \<open>The object handed to the \<^verbatim>\<open>onStateChange\<close> callback.\<close>

record snapshot =
  snap_terminals :: "terminal_state list"
  snap_activeTerminalId :: "terminal_id option"
  snap_viewMode :: string
  snap_gridLayout :: string

text \<open>
  The manager. \<open>terminals\<close> is the JavaScript \<^verbatim>\<open>Map\<close>, as an association list in
  insertion order. \<open>onStateChange\<close> tells whether a callback is installed.
  \<open>created_handlers\<close> holds the listeners that pending \<^verbatim>\<open>createTerminal\<close> calls have
  registered on \<^verbatim>\<open>TERMINAL_CREATED\<close>, each with the options it closes over.
  \<open>sent\<close>, \<open>notified\<close> and \<open>disposed\<close> are the logs, oldest entry first.
\<close>

record manager =
  terminals :: "(terminal_id \<times> terminal_instance) list"
  activeTerminalId :: "terminal_id option"
  viewMode :: string
  gridLayout :: string
  maxTerminals :: nat
  terminalCounter :: nat
  onStateChange :: bool
  created_handlers :: "options list"
  sent :: "ipc_message list"
  notified :: "snapshot list"
  disposed :: "terminal_id list"

datatype error = CapacityExceeded

text \<open>What a call of \<^verbatim>\<open>createTerminal\<close> returns at once: \<^verbatim>\<open>null\<close> after logging
  "Maximum terminal limit reached", or a promise that is still pending.\<close>

datatype create_result = Pending

subsection \<open>Construction and notification\<close>

definition new_TerminalManager :: manager where
  "new_TerminalManager =
     \<lparr>terminals = [], activeTerminalId = None, viewMode = ''tabs'', gridLayout = ''2x2'',
      maxTerminals = 9, terminalCounter = 0, onStateChange = False, created_handlers = [],
      sent = [], notified = [], disposed = []\<rparr>"

text \<open>\<^verbatim>\<open>getTerminalStates\<close>: copies of the state objects, sorted by \<^verbatim>\<open>createdAt\<close>
  with the (stable) array sort.\<close>

definition getTerminalStates :: "manager \<Rightarrow> terminal_state list" where
  "getTerminalStates s = sort_key createdAt (map (\<lambda>(k, t). state t) (terminals s))"

definition snapshot_of :: "manager \<Rightarrow> snapshot" where
  "snapshot_of s =
     \<lparr>snap_terminals = getTerminalStates s, snap_activeTerminalId = activeTerminalId s,
      snap_viewMode = viewMode s, snap_gridLayout = gridLayout s\<rparr>"

text \<open>\<^verbatim>\<open>_notifyStateChange\<close>.\<close>

definition notifyStateChange :: "manager \<Rightarrow> manager" where
  "notifyStateChange s =
     (if onStateChange s then s\<lparr>notified := notified s @ [snapshot_of s]\<rparr> else s)"

subsection \<open>Activation, renaming, closing\<close>

definition set_isActive :: "bool \<Rightarrow> terminal_instance \<Rightarrow> terminal_instance" where
  "set_isActive b t = t\<lparr>state := (state t)\<lparr>isActive := b\<rparr>\<rparr>"

text \<open>\<^verbatim>\<open>setActiveTerminal\<close>. \<open>AList.map_entry\<close> changes the entry of a key and does
  nothing when the key is absent, as the guards \<^verbatim>\<open>if (prev)\<close> and \<^verbatim>\<open>if (current)\<close> do.\<close>

definition setActiveTerminal :: "terminal_id \<Rightarrow> manager \<Rightarrow> manager" where
  "setActiveTerminal terminalId s =
     (let s1 = (case activeTerminalId s of
                  None \<Rightarrow> s
                | Some prev \<Rightarrow>
                    if truthy prev
                    then s\<lparr>terminals := AList.map_entry prev (set_isActive False) (terminals s)\<rparr>
                    else s);
          s2 = s1\<lparr>activeTerminalId := Some terminalId\<rparr>;
          s3 = s2\<lparr>terminals := AList.map_entry terminalId (set_isActive True) (terminals s2)\<rparr>
      in notifyStateChange s3)"

definition set_name :: "string \<Rightarrow> terminal_instance \<Rightarrow> terminal_instance" where
  "set_name newName t = t\<lparr>state := (state t)\<lparr>customName := Some newName, name := newName\<rparr>\<rparr>"

definition renameTerminal :: "terminal_id \<Rightarrow> string \<Rightarrow> manager \<Rightarrow> manager" where
  "renameTerminal terminalId newName s =
     (case map_of (terminals s) terminalId of
        None \<Rightarrow> s
      | Some t \<Rightarrow>
          notifyStateChange
            (s\<lparr>terminals := AList.map_entry terminalId (set_name newName) (terminals s)\<rparr>))"

definition closeTerminal :: "terminal_id \<Rightarrow> manager \<Rightarrow> manager" where
  "closeTerminal terminalId s =
     (case map_of (terminals s) terminalId of
        None \<Rightarrow> s
      | Some t \<Rightarrow>
          (let s1 = s\<lparr>disposed := disposed s @ [terminalId],
                      terminals := AList.delete terminalId (terminals s),
                      sent := sent s @ [TERMINAL_DESTROY terminalId]\<rparr>;
               s2 = (if activeTerminalId s1 = Some terminalId
                     then (let remaining = map fst (terminals s1) in
                           if length remaining > 0
                           then (if truthy (last remaining)
                                 then setActiveTerminal (last remaining)
                                        (s1\<lparr>activeTerminalId := Some (last remaining)\<rparr>)
                                 else s1\<lparr>activeTerminalId := Some (last remaining)\<rparr>)
                           else s1\<lparr>activeTerminalId := None\<rparr>)
                     else s1)
           in notifyStateChange s2))"

definition setViewMode :: "string \<Rightarrow> manager \<Rightarrow> manager" where
  "setViewMode mode s = notifyStateChange (s\<lparr>viewMode := mode\<rparr>)"

definition setGridLayout :: "string \<Rightarrow> manager \<Rightarrow> manager" where
  "setGridLayout layout s = notifyStateChange (s\<lparr>gridLayout := layout\<rparr>)"

subsection \<open>Creation\<close>

text \<open>\<^verbatim>\<open>createTerminal\<close>, up to the point where it returns: the capacity check, then the
  listener and the request to the main process.\<close>

definition createTerminal :: "options \<Rightarrow> manager \<Rightarrow> (error + create_result) \<times> manager" where
  "createTerminal opts s =
     (if length (terminals s) \<ge> maxTerminals s then (Inl CapacityExceeded, s)
      else (Inr Pending,
            s\<lparr>created_handlers := created_handlers s @ [opts],
              sent := sent s @ [TERMINAL_CREATE (if truthy_opt (opt_cwd opts) then opt_cwd opts else None)]\<rparr>))"

text \<open>A fresh xterm.js terminal has 80 columns and 24 rows until it is fitted.\<close>

definition new_Terminal :: emulator where
  "new_Terminal = \<lparr>cols = 80, rows = 24, written = []\<rparr>"

text \<open>\<^verbatim>\<open>_initializeTerminal\<close>; \<open>now\<close> is the value \<^verbatim>\<open>Date.now()\<close> returns.
  The counter is incremented only when \<^verbatim>\<open>options.name\<close> is falsy.\<close>

definition initializeTerminal :: "terminal_id \<Rightarrow> options \<Rightarrow> nat \<Rightarrow> manager \<Rightarrow> manager" where
  "initializeTerminal terminalId opts now s =
     (let s0 = (if truthy_opt (opt_name opts) then s
                else s\<lparr>terminalCounter := terminalCounter s + 1\<rparr>);
          nm = (case opt_name opts of
                  None \<Rightarrow> ''Terminal '' @ decimal (terminalCounter s0)
                | Some n \<Rightarrow> if truthy n then n else ''Terminal '' @ decimal (terminalCounter s0));
          st = \<lparr>state_id = terminalId, name = nm, customName = None, isActive = False,
                createdAt = now\<rparr>;
          s1 = s0\<lparr>terminals :=
                    AList.update terminalId
                      \<lparr>terminal = new_Terminal, element = \<lparr>parentNode = None\<rparr>, state = st,
                       opened = False\<rparr>
                      (terminals s0)\<rparr>;
          s2 = (if length (terminals s1) = 1 \<or> \<not> truthy_opt (activeTerminalId s1)
                then setActiveTerminal terminalId s1 else s1)
      in notifyStateChange s2)"

text \<open>One listener of \<^verbatim>\<open>TERMINAL_CREATED\<close>: it removes itself, then initializes the
  terminal on success. All listeners registered at the time of the message are called.\<close>

definition created_handler :: "create_response \<Rightarrow> nat \<Rightarrow> options \<Rightarrow> manager \<Rightarrow> manager" where
  "created_handler response now opts s =
     (let s1 = s\<lparr>created_handlers := remove1 opts (created_handlers s)\<rparr>
      in case response of
           Success terminalId \<Rightarrow> initializeTerminal terminalId opts now s1
         | Failure err \<Rightarrow> s1)"

definition on_TERMINAL_CREATED :: "create_response \<Rightarrow> nat \<Rightarrow> manager \<Rightarrow> manager" where
  "on_TERMINAL_CREATED response now s = fold (created_handler response now) (created_handlers s) s"

subsection \<open>Mounting and fitting\<close>

text \<open>\<^verbatim>\<open>container.innerHTML = ''\<close>: the elements that were children of the container
  have no parent any more.\<close>

definition clear_container ::
  "container \<Rightarrow> (terminal_id \<times> terminal_instance) list \<Rightarrow> (terminal_id \<times> terminal_instance) list" where
  "clear_container c ts =
     AList.map_ran
       (\<lambda>k t. if parentNode (element t) = Some c then t\<lparr>element := \<lparr>parentNode = None\<rparr>\<rparr> else t) ts"

text \<open>\<^verbatim>\<open>mountTerminal\<close>, the part that runs at once; the container argument may be
  \<^verbatim>\<open>null\<close>. The container is emptied, the element of the instance is appended to it
  (which takes the element out of the container it was in), and the flag \<^verbatim>\<open>opened\<close> is
  set. The callback handed to \<^verbatim>\<open>setTimeout\<close> fits the instance and sends its size, as
  \<^verbatim>\<open>fitTerminal\<close> does, and is not a step of its own here.\<close>

definition mountTerminal :: "terminal_id \<Rightarrow> container option \<Rightarrow> manager \<Rightarrow> manager" where
  "mountTerminal terminalId container s =
     (case map_of (terminals s) terminalId of
        None \<Rightarrow> s
      | Some t \<Rightarrow>
          (case container of
             None \<Rightarrow> s
           | Some c \<Rightarrow>
               s\<lparr>terminals :=
                   AList.map_entry terminalId
                     (\<lambda>t. t\<lparr>element := \<lparr>parentNode = Some c\<rparr>, opened := True\<rparr>)
                     (clear_container c (terminals s))\<rparr>))"

text \<open>\<^verbatim>\<open>fitAddon.fit()\<close> belongs to the xterm.js fit addon: it proposes a size for the
  container the emulator is in and resizes the emulator to it; when it can propose none,
  the emulator keeps its size. The proposal is a parameter of the model.\<close>

definition fit :: "(nat \<times> nat) option \<Rightarrow> emulator \<Rightarrow> emulator" where
  "fit proposed e = (case proposed of None \<Rightarrow> e | Some (c, r) \<Rightarrow> e\<lparr>cols := c, rows := r\<rparr>)"

text \<open>\<^verbatim>\<open>_sendResize\<close>.\<close>

definition sendResize :: "terminal_id \<Rightarrow> manager \<Rightarrow> manager" where
  "sendResize terminalId s =
     (case map_of (terminals s) terminalId of
        None \<Rightarrow> s
      | Some t \<Rightarrow>
          s\<lparr>sent := sent s @ [TERMINAL_RESIZE_ID terminalId (cols (terminal t)) (rows (terminal t))]\<rparr>)"

definition fit_instance :: "(terminal_id \<Rightarrow> (nat \<times> nat) option) \<Rightarrow> terminal_id \<Rightarrow> manager \<Rightarrow> manager" where
  "fit_instance proposals terminalId s =
     s\<lparr>terminals :=
         AList.map_entry terminalId (\<lambda>t. t\<lparr>terminal := fit (proposals terminalId) (terminal t)\<rparr>)
           (terminals s)\<rparr>"

text \<open>\<^verbatim>\<open>fitAll\<close>: the loop over the entries of the map.\<close>

fun fitAll_loop ::
  "(terminal_id \<Rightarrow> (nat \<times> nat) option) \<Rightarrow> (terminal_id \<times> terminal_instance) list \<Rightarrow> manager \<Rightarrow> manager" where
  "fitAll_loop proposals [] s = s"
| "fitAll_loop proposals ((i, t) # rest) s =
     fitAll_loop proposals rest
       (if opened t then sendResize i (fit_instance proposals i s) else s)"

definition fitAll :: "(terminal_id \<Rightarrow> (nat \<times> nat) option) \<Rightarrow> manager \<Rightarrow> manager" where
  "fitAll proposals s = fitAll_loop proposals (terminals s) s"

definition fitTerminal :: "(nat \<times> nat) option \<Rightarrow> terminal_id \<Rightarrow> manager \<Rightarrow> manager" where
  "fitTerminal proposed terminalId s =
     (case map_of (terminals s) terminalId of
        None \<Rightarrow> s
      | Some t \<Rightarrow>
          if opened t then sendResize terminalId (fit_instance (\<lambda>i. proposed) terminalId s) else s)"

subsection \<open>Input and output\<close>

definition write_instance :: "string \<Rightarrow> terminal_instance \<Rightarrow> terminal_instance" where
  "write_instance data t = t\<lparr>terminal := (terminal t)\<lparr>written := written (terminal t) @ [data]\<rparr>\<rparr>"

definition writeToActive :: "string \<Rightarrow> manager \<Rightarrow> manager" where
  "writeToActive data s =
     (case activeTerminalId s of
        None \<Rightarrow> s
      | Some a \<Rightarrow>
          if truthy a
          then s\<lparr>terminals := AList.map_entry a (write_instance data) (terminals s)\<rparr>
          else s)"

definition sendCommand :: "string \<Rightarrow> manager \<Rightarrow> manager" where
  "sendCommand command s =
     (case activeTerminalId s of
        None \<Rightarrow> s
      | Some a \<Rightarrow>
          if truthy a
          then s\<lparr>sent := sent s @ [TERMINAL_INPUT_ID a (command @ [CHR 0x0D])]\<rparr>
          else s)"

text \<open>The listener of \<^verbatim>\<open>terminal.onData\<close> installed in \<^verbatim>\<open>_initializeTerminal\<close>.\<close>

definition on_data :: "terminal_id \<Rightarrow> string \<Rightarrow> manager \<Rightarrow> manager" where
  "on_data terminalId data s =
     (case map_of (terminals s) terminalId of
        None \<Rightarrow> s
      | Some t \<Rightarrow> s\<lparr>sent := sent s @ [TERMINAL_INPUT_ID terminalId data]\<rparr>)"

text \<open>The two listeners installed by \<^verbatim>\<open>_setupIPC\<close>.\<close>

definition on_TERMINAL_OUTPUT_ID :: "terminal_id \<Rightarrow> string \<Rightarrow> manager \<Rightarrow> manager" where
  "on_TERMINAL_OUTPUT_ID terminalId data s =
     s\<lparr>terminals := AList.map_entry terminalId (write_instance data) (terminals s)\<rparr>"

definition on_TERMINAL_DESTROYED :: "terminal_id \<Rightarrow> manager \<Rightarrow> manager" where
  "on_TERMINAL_DESTROYED terminalId s =
     (if map_of (terminals s) terminalId \<noteq> None then closeTerminal terminalId s else s)"

subsection \<open>Runs\<close>

text \<open>Everything that can happen to a manager: a call of one of its methods, a message
  from the main process, input typed into an emulator, the installation or removal of
  the callback, and the emptying of a container by its owner (\<^verbatim>\<open>innerHTML = ''\<close>, as
  the multi-terminal UI does before it mounts the active session).\<close>

datatype event =
    CreateTerminal options
  | TerminalCreated create_response nat
  | MountTerminal terminal_id "container option"
  | ContainerEmptied container
  | SetActiveTerminal terminal_id
  | RenameTerminal terminal_id string
  | CloseTerminal terminal_id
  | SetViewMode string
  | SetGridLayout string
  | FitAll "terminal_id \<Rightarrow> (nat \<times> nat) option"
  | FitTerminal "(nat \<times> nat) option" terminal_id
  | WriteToActive string
  | SendCommand string
  | TerminalData terminal_id string
  | TerminalOutput terminal_id string
  | TerminalDestroyed terminal_id
  | SetOnStateChange bool

fun step :: "event \<Rightarrow> manager \<Rightarrow> manager" where
  "step (CreateTerminal opts) s = snd (createTerminal opts s)"
| "step (TerminalCreated response now) s = on_TERMINAL_CREATED response now s"
| "step (MountTerminal i container) s = mountTerminal i container s"
| "step (ContainerEmptied c) s = s\<lparr>terminals := clear_container c (terminals s)\<rparr>"
| "step (SetActiveTerminal i) s = setActiveTerminal i s"
| "step (RenameTerminal i newName) s = renameTerminal i newName s"
| "step (CloseTerminal i) s = closeTerminal i s"
| "step (SetViewMode mode) s = setViewMode mode s"
| "step (SetGridLayout layout) s = setGridLayout layout s"
| "step (FitAll proposals) s = fitAll proposals s"
| "step (FitTerminal proposed i) s = fitTerminal proposed i s"
| "step (WriteToActive data) s = writeToActive data s"
| "step (SendCommand command) s = sendCommand command s"
| "step (TerminalData i data) s = on_data i data s"
| "step (TerminalOutput i data) s = on_TERMINAL_OUTPUT_ID i data s"
| "step (TerminalDestroyed i) s = on_TERMINAL_DESTROYED i s"
| "step (SetOnStateChange b) s = s\<lparr>onStateChange := b\<rparr>"

definition exec :: "event list \<Rightarrow> manager \<Rightarrow> manager" where
  "exec evs s = fold step evs s"

text \<open>The number of sessions whose flag \<^verbatim>\<open>isActive\<close> is set.\<close>

definition active_count :: "manager \<Rightarrow> nat" where
  "active_count s = length (filter (\<lambda>(k, t). isActive (state t)) (terminals s))"

subsection \<open>Well-formed registries\<close>

text \<open>No session is flagged active.\<close>

definition none_active :: "(terminal_id \<times> terminal_instance) list \<Rightarrow> bool" where
  "none_active ts = (\<forall>(k, t)\<in>set ts. \<not> isActive (state t))"

text \<open>Every key is a truthy string, and a session flagged active is the one that
  \<^verbatim>\<open>activeTerminalId\<close> names.\<close>

definition flags_ok :: "terminal_id option \<Rightarrow> (terminal_id \<times> terminal_instance) list \<Rightarrow> bool" where
  "flags_ok a ts = (\<forall>(k, t)\<in>set ts. truthy k \<and> (isActive (state t) \<longrightarrow> a = Some k))"

text \<open>The keys of a \<^verbatim>\<open>Map\<close> are distinct.\<close>

definition registry_ok :: "manager \<Rightarrow> bool" where
  "registry_ok s = (distinct (map fst (terminals s)) \<and> flags_ok (activeTerminalId s) (terminals s))"

text \<open>The identifiers come from the main process, whose code assigns them. The runs
  considered are those in which every identifier it reports is a truthy string: the guards
  \<^verbatim>\<open>if (this.activeTerminalId)\<close> take a falsy identifier for no identifier.\<close>

fun host_id_ok :: "event \<Rightarrow> bool" where
  "host_id_ok (TerminalCreated (Success i) now) = truthy i"
| "host_id_ok e = True"

text \<open>A session is mounted when a container holds its element. In a well-mounted
  registry every mounted session has its flag \<^verbatim>\<open>opened\<close> set.\<close>

definition mounted :: "terminal_instance \<Rightarrow> bool" where
  "mounted t = (parentNode (element t) \<noteq> None)"

definition mounted_opened :: "manager \<Rightarrow> bool" where
  "mounted_opened s = list_all (\<lambda>(k, t). mounted t \<longrightarrow> opened t) (terminals s)"

text \<open>The keys of the registry with the creation times of their sessions, and the
  registry holding its sessions in the order of their creation times.\<close>

definition creation_times :: "manager \<Rightarrow> (terminal_id \<times> nat) list" where
  "creation_times s = map (\<lambda>(k, t). (k, createdAt (state t))) (terminals s)"

definition creation_ordered :: "manager \<Rightarrow> bool" where
  "creation_ordered s = sorted (map snd (creation_times s))"

text \<open>A run in which the main process never reports an identifier that is registered
  and the clock read by \<^verbatim>\<open>Date.now()\<close> does not go back behind a registered session.\<close>

fun fresh_and_later :: "event \<Rightarrow> manager \<Rightarrow> bool" where
  "fresh_and_later (TerminalCreated (Success i) now) s =
     (i \<notin> set (map fst (terminals s)) \<and> list_all (\<lambda>(k, c). c \<le> now) (creation_times s))"
| "fresh_and_later e s = True"

fun run_ok :: "event list \<Rightarrow> manager \<Rightarrow> bool" where
  "run_ok [] s = True"
| "run_ok (e # evs) s = (fresh_and_later e s \<and> run_ok evs (step e s))"

text \<open>When \<^verbatim>\<open>closeTerminal\<close> of a registered identifier goes on to call
  \<^verbatim>\<open>setActiveTerminal\<close>: the session closed is the active one, sessions remain, and the
  key inserted last among them is truthy.\<close>

definition close_switches :: "terminal_id \<Rightarrow> manager \<Rightarrow> bool" where
  "close_switches c s =
     (activeTerminalId s = Some c \<and> AList.delete c (terminals s) \<noteq> [] \<and>
      truthy (fst (last (AList.delete c (terminals s)))))"

subsection \<open>Scenarios\<close>

text \<open>\<^verbatim>\<open>createTerminal()\<close> without an argument takes the default \<^verbatim>\<open>options = {}\<close>.\<close>

definition default_options :: options where
  "default_options = \<lparr>opt_name = None, opt_cwd = None\<rparr>"

text \<open>A call of \<^verbatim>\<open>createTerminal()\<close> and the successful reply of the main process.\<close>

definition create_events :: "terminal_id \<Rightarrow> nat \<Rightarrow> event list" where
  "create_events i now = [CreateTerminal default_options, TerminalCreated (Success i) now]"

text \<open>A manager on which nine terminals have been created.\<close>

definition nine_terminals :: manager where
  "nine_terminals =
     exec (create_events ''term-1'' 1 @ create_events ''term-2'' 2 @ create_events ''term-3'' 3 @
           create_events ''term-4'' 4 @ create_events ''term-5'' 5 @ create_events ''term-6'' 6 @
           create_events ''term-7'' 7 @ create_events ''term-8'' 8 @ create_events ''term-9'' 9)
       new_TerminalManager"

section \<open>Properties\<close>

subsection \<open>Association lists\<close>

lemma map_entry_keys: "map fst (AList.map_entry k f ts) = map fst ts"
  by (induction ts) auto

lemma map_entry_length: "length (AList.map_entry k f ts) = length ts"
  by (induction ts) auto

lemma map_entry_absent: "map_of ts k = None \<Longrightarrow> AList.map_entry k f ts = ts"
  by (induction ts) (auto split: if_splits)

subsection \<open>The invariant of the registry\<close>

lemma clear_prev_none_active:
  "distinct (map fst ts) \<Longrightarrow> flags_ok (Some p) ts \<Longrightarrow>
   none_active (AList.map_entry p (set_isActive False) ts)"
  by (induction ts) (auto simp: flags_ok_def none_active_def set_isActive_def rev_image_eqI)

lemma falsy_none_active:
  "flags_ok a ts \<Longrightarrow> \<not> truthy_opt a \<Longrightarrow> none_active ts"
  by (cases a) (auto simp: flags_ok_def none_active_def)

lemma set_current_flags_ok:
  "none_active ts \<Longrightarrow> \<forall>k\<in>set (map fst ts). truthy k \<Longrightarrow>
   flags_ok (Some c) (AList.map_entry c (set_isActive b) ts)"
  by (induction ts) (auto simp: flags_ok_def none_active_def set_isActive_def)

lemma flags_ok_truthy: "flags_ok a ts \<Longrightarrow> \<forall>k\<in>set (map fst ts). truthy k"
  by (auto simp: flags_ok_def)

lemma none_active_count: "none_active ts \<Longrightarrow> filter (\<lambda>(k, t). isActive (state t)) ts = []"
  by (induction ts) (auto simp: none_active_def)

lemma flags_ok_count:
  "distinct (map fst ts) \<Longrightarrow> flags_ok a ts \<Longrightarrow>
   length (filter (\<lambda>(k, t). isActive (state t)) ts) \<le> 1"
proof (induction ts)
  case Nil
  then show ?case by simp
next
  case (Cons x ts)
  obtain k t where x: "x = (k, t)" by (cases x)
  from Cons.prems have d: "distinct (map fst ts)" and f: "flags_ok a ts"
    by (auto simp: flags_ok_def)
  show ?case
  proof (cases "isActive (state t)")
    case False
    with Cons.IH [OF d f] x show ?thesis by simp
  next
    case True
    with Cons.prems x have a: "a = Some k" by (auto simp: flags_ok_def)
    have "none_active ts"
      using Cons.prems x a by (force simp: flags_ok_def none_active_def)
    then show ?thesis using x True by (simp add: none_active_count)
  qed
qed

lemma notify_fields [simp]:
  "terminals (notifyStateChange s) = terminals s"
  "activeTerminalId (notifyStateChange s) = activeTerminalId s"
  "viewMode (notifyStateChange s) = viewMode s"
  "gridLayout (notifyStateChange s) = gridLayout s"
  "maxTerminals (notifyStateChange s) = maxTerminals s"
  "terminalCounter (notifyStateChange s) = terminalCounter s"
  "onStateChange (notifyStateChange s) = onStateChange s"
  "created_handlers (notifyStateChange s) = created_handlers s"
  "sent (notifyStateChange s) = sent s"
  "disposed (notifyStateChange s) = disposed s"
  by (simp_all add: notifyStateChange_def)

lemma setActiveTerminal_fields [simp]:
  "activeTerminalId (setActiveTerminal c s) = Some c"
  "viewMode (setActiveTerminal c s) = viewMode s"
  "gridLayout (setActiveTerminal c s) = gridLayout s"
  "maxTerminals (setActiveTerminal c s) = maxTerminals s"
  "terminalCounter (setActiveTerminal c s) = terminalCounter s"
  "onStateChange (setActiveTerminal c s) = onStateChange s"
  "created_handlers (setActiveTerminal c s) = created_handlers s"
  "sent (setActiveTerminal c s) = sent s"
  "disposed (setActiveTerminal c s) = disposed s"
  "map fst (terminals (setActiveTerminal c s)) = map fst (terminals s)"
  by (simp_all add: setActiveTerminal_def Let_def map_entry_keys split: option.splits)

lemma terminals_setActiveTerminal:
  "terminals (setActiveTerminal c s) =
     AList.map_entry c (set_isActive True)
       (case activeTerminalId s of
          None \<Rightarrow> terminals s
        | Some p \<Rightarrow> if truthy p then AList.map_entry p (set_isActive False) (terminals s)
                    else terminals s)"
  by (simp add: setActiveTerminal_def Let_def split: option.splits)

lemma registry_ok_notify [simp]: "registry_ok (notifyStateChange s) = registry_ok s"
  by (simp add: registry_ok_def notifyStateChange_def)

lemma registry_ok_setActiveTerminal:
  assumes "registry_ok s"
  shows "registry_ok (setActiveTerminal c s)"
proof -
  let ?ts1 = "(case activeTerminalId s of None \<Rightarrow> terminals s
      | Some p \<Rightarrow> if truthy p then AList.map_entry p (set_isActive False) (terminals s) else terminals s)"
  have d: "distinct (map fst (terminals s))" and f: "flags_ok (activeTerminalId s) (terminals s)"
    using assms by (auto simp: registry_ok_def)
  have n: "none_active ?ts1"
    using d f clear_prev_none_active falsy_none_active [OF f]
    by (auto split: option.splits)
  have k: "map fst ?ts1 = map fst (terminals s)"
    by (auto split: option.splits simp: map_entry_keys)
  have "flags_ok (Some c) (AList.map_entry c (set_isActive True) ?ts1)"
    using n k flags_ok_truthy [OF f] by (intro set_current_flags_ok) auto
  then have "flags_ok (activeTerminalId (setActiveTerminal c s)) (terminals (setActiveTerminal c s))"
    by (simp add: terminals_setActiveTerminal)
  moreover have "distinct (map fst (terminals (setActiveTerminal c s)))"
    using d by simp
  ultimately show ?thesis by (simp add: registry_ok_def)
qed

lemma flags_ok_update:
  "flags_ok a ts \<Longrightarrow> truthy c \<Longrightarrow> \<not> isActive (state t) \<Longrightarrow> flags_ok a (AList.update c t ts)"
  by (induction ts) (auto simp: flags_ok_def)

lemma flags_ok_delete: "flags_ok a ts \<Longrightarrow> flags_ok a (AList.delete c ts)"
  by (auto simp: flags_ok_def AList.delete_eq)

lemma flags_ok_delete_active:
  "distinct (map fst ts) \<Longrightarrow> flags_ok (Some c) ts \<Longrightarrow> flags_ok b (AList.delete c ts)"
  by (induction ts) (auto simp: flags_ok_def rev_image_eqI)

lemma flags_ok_map_entry:
  "flags_ok a ts \<Longrightarrow> (\<And>t. isActive (state (f t)) = isActive (state t)) \<Longrightarrow>
   flags_ok a (AList.map_entry c f ts)"
  by (induction ts) (auto simp: flags_ok_def)

lemma flags_ok_map_ran:
  "flags_ok a ts \<Longrightarrow> (\<And>k t. isActive (state (f k t)) = isActive (state t)) \<Longrightarrow>
   flags_ok a (AList.map_ran f ts)"
  by (induction ts) (auto simp: flags_ok_def)

lemma clear_container_keys [simp]: "map fst (clear_container c ts) = map fst ts"
  by (simp add: clear_container_def)

lemma flags_ok_clear_container: "flags_ok a ts \<Longrightarrow> flags_ok a (clear_container c ts)"
  by (simp add: clear_container_def flags_ok_map_ran)

lemma registry_ok_counter [simp]: "registry_ok (s\<lparr>terminalCounter := n\<rparr>) = registry_ok s"
  by (simp add: registry_ok_def)

lemma registry_ok_add:
  "registry_ok s \<Longrightarrow> truthy c \<Longrightarrow> \<not> isActive (state t) \<Longrightarrow>
   registry_ok (s\<lparr>terminals := AList.update c t (terminals s)\<rparr>)"
  by (simp add: registry_ok_def flags_ok_update AList.distinct_update)

lemma registry_ok_initializeTerminal:
  assumes "registry_ok s" and "truthy c"
  shows "registry_ok (initializeTerminal c opts now s)"
  using assms
  by (simp add: initializeTerminal_def Let_def registry_ok_setActiveTerminal registry_ok_add)

lemma registry_ok_closeTerminal:
  assumes "registry_ok s"
  shows "registry_ok (closeTerminal c s)"
proof (cases "map_of (terminals s) c")
  case None
  then show ?thesis using assms by (simp add: closeTerminal_def)
next
  case (Some t)
  have d: "distinct (map fst (AList.delete c (terminals s)))"
    using assms by (simp add: registry_ok_def AList.distinct_delete)
  have r: "registry_ok s'"
    if "terminals s' = AList.delete c (terminals s)" "activeTerminalId s' = activeTerminalId s"
    for s'
    using assms d that by (simp add: registry_ok_def flags_ok_delete)
  have r': "registry_ok s'"
    if "activeTerminalId s = Some c" "terminals s' = AList.delete c (terminals s)" for s'
    using assms d that by (simp add: registry_ok_def flags_ok_delete_active)
  show ?thesis
  proof (cases "activeTerminalId s = Some c")
    case False
    then show ?thesis using Some by (simp add: closeTerminal_def Let_def r)
  next
    case True
    then show ?thesis using Some
      by (auto simp: closeTerminal_def Let_def intro!: registry_ok_setActiveTerminal r')
  qed
qed

lemma registry_ok_renameTerminal: "registry_ok s \<Longrightarrow> registry_ok (renameTerminal c n s)"
  by (auto simp: renameTerminal_def registry_ok_def map_entry_keys set_name_def
      intro!: flags_ok_map_entry split: option.splits)

lemma registry_ok_created_handler:
  "registry_ok s \<Longrightarrow> (\<And>c. r = Success c \<Longrightarrow> truthy c) \<Longrightarrow>
   registry_ok (created_handler r now opts s)"
  by (cases r) (auto simp: created_handler_def Let_def registry_ok_def 
      intro!: registry_ok_initializeTerminal [unfolded registry_ok_def])

lemma registry_ok_on_TERMINAL_CREATED_aux:
  "registry_ok s \<Longrightarrow> (\<And>c. r = Success c \<Longrightarrow> truthy c) \<Longrightarrow>
   registry_ok (fold (created_handler r now) hs s)"
  by (induction hs arbitrary: s) (auto intro: registry_ok_created_handler)

lemma terminals_fitAll_loop_keys:
  "map fst (terminals (fitAll_loop p es s)) = map fst (terminals s)"
  by (induction p es s rule: fitAll_loop.induct)
     (auto simp: sendResize_def fit_instance_def map_entry_keys split: option.splits)

lemma registry_ok_fit_instance: "registry_ok s \<Longrightarrow> registry_ok (fit_instance p i s)"
  by (auto simp: fit_instance_def registry_ok_def map_entry_keys intro!: flags_ok_map_entry)

lemma registry_ok_sendResize: "registry_ok s \<Longrightarrow> registry_ok (sendResize i s)"
  by (auto simp: sendResize_def registry_ok_def split: option.splits)

lemma registry_ok_fitAll_loop: "registry_ok s \<Longrightarrow> registry_ok (fitAll_loop p es s)"
  by (induction p es s rule: fitAll_loop.induct)
     (auto simp: registry_ok_fit_instance registry_ok_sendResize)

lemma registry_ok_step: "registry_ok s \<Longrightarrow> host_id_ok e \<Longrightarrow> registry_ok (step e s)"
proof (cases e)
  case (CreateTerminal opts)
  then show "registry_ok s \<Longrightarrow> ?thesis" by (simp add: createTerminal_def registry_ok_def)
next
  case (TerminalCreated r now)
  then show "registry_ok s \<Longrightarrow> host_id_ok e \<Longrightarrow> ?thesis"
    by (auto simp: on_TERMINAL_CREATED_def intro!: registry_ok_on_TERMINAL_CREATED_aux)
next
  case (MountTerminal i c)
  then show "registry_ok s \<Longrightarrow> ?thesis"
    by (auto simp: mountTerminal_def registry_ok_def map_entry_keys flags_ok_clear_container
        intro!: flags_ok_map_entry split: option.splits)
next
  case (ContainerEmptied c)
  then show "registry_ok s \<Longrightarrow> ?thesis"
    by (simp add: registry_ok_def flags_ok_clear_container)
next
  case (FitAll p)
  then show "registry_ok s \<Longrightarrow> ?thesis" by (simp add: fitAll_def registry_ok_fitAll_loop)
next
  case (FitTerminal p i)
  then show "registry_ok s \<Longrightarrow> ?thesis"
    by (auto simp: fitTerminal_def registry_ok_fit_instance registry_ok_sendResize split: option.splits)
next
  case (WriteToActive d)
  then show "registry_ok s \<Longrightarrow> ?thesis"
    by (auto simp: writeToActive_def registry_ok_def map_entry_keys write_instance_def
        intro!: flags_ok_map_entry split: option.splits)
next
  case (TerminalOutput i d)
  then show "registry_ok s \<Longrightarrow> ?thesis"
    by (auto simp: on_TERMINAL_OUTPUT_ID_def registry_ok_def map_entry_keys write_instance_def
        intro!: flags_ok_map_entry)
qed (auto simp: registry_ok_setActiveTerminal registry_ok_renameTerminal registry_ok_closeTerminal
      setViewMode_def setGridLayout_def sendCommand_def on_data_def on_TERMINAL_DESTROYED_def
      registry_ok_def [of "_\<lparr>viewMode := _\<rparr>"] registry_ok_def [of "_\<lparr>gridLayout := _\<rparr>"]
      registry_ok_def [of "_\<lparr>sent := _\<rparr>"] registry_ok_def [of "_\<lparr>onStateChange := _\<rparr>"]
      registry_ok_def [of s] split: option.splits)

lemma registry_ok_exec:
  "registry_ok s \<Longrightarrow> list_all host_id_ok evs \<Longrightarrow> registry_ok (exec evs s)"
  unfolding exec_def by (induction evs arbitrary: s) (auto simp: registry_ok_step)

lemma registry_ok_new: "registry_ok new_TerminalManager"
  by (simp add: registry_ok_def new_TerminalManager_def flags_ok_def)

subsection \<open>Activation\<close>

lemma count_set_current:
  "none_active ts \<Longrightarrow>
   length (filter (\<lambda>(k, t). isActive (state t)) (AList.map_entry c (set_isActive True) ts)) =
     (if map_of ts c = None then 0 else 1)"
  by (induction ts) (auto simp: none_active_def set_isActive_def none_active_count)

lemma none_active_after_clear:
  assumes "registry_ok s"
  shows "none_active (case activeTerminalId s of None \<Rightarrow> terminals s
          | Some p \<Rightarrow> if truthy p then AList.map_entry p (set_isActive False) (terminals s)
                      else terminals s)"
proof -
  have d: "distinct (map fst (terminals s))" and f: "flags_ok (activeTerminalId s) (terminals s)"
    using assms by (auto simp: registry_ok_def)
  show ?thesis
    using d f clear_prev_none_active falsy_none_active [OF f]
    by (auto split: option.splits)
qed

lemma map_of_clear_None:
  "map_of (case a of None \<Rightarrow> ts | Some p \<Rightarrow> if truthy p then AList.map_entry p f ts else ts) c = None
   \<longleftrightarrow> map_of ts c = None"
  by (auto simp: AList.map_of_map_entry split: option.splits)

lemma active_count_setActiveTerminal:
  assumes "registry_ok s"
  shows "active_count (setActiveTerminal c s) = (if map_of (terminals s) c = None then 0 else 1)"
  unfolding active_count_def terminals_setActiveTerminal
  by (simp only: count_set_current [OF none_active_after_clear [OF assms]] map_of_clear_None)

lemma isActive_setActiveTerminal:
  "map_of (terminals s) c = Some t \<Longrightarrow>
   \<exists>t'. map_of (terminals (setActiveTerminal c s)) c = Some t' \<and> isActive (state t')"
  by (auto simp: terminals_setActiveTerminal AList.map_of_map_entry set_isActive_def
      split: option.splits)

lemma active_count_le_1: "registry_ok s \<Longrightarrow> active_count s \<le> 1"
  using flags_ok_count [of "terminals s" "activeTerminalId s"]
  by (simp add: active_count_def registry_ok_def)

text \<open>
  Claim C1, as the code has it. In every state the manager reaches from its construction,
  by any sequence of method calls and messages in which the main process reports truthy
  identifiers, at most one session is flagged active. \<^verbatim>\<open>setActiveTerminal\<close> never fails:
  it always records its argument as the active identifier and leaves the set of sessions
  as it is. For a registered identifier it clears the previous flag and sets the new one in
  the same call, so that exactly one session is flagged active afterwards, the one named;
  for an identifier that is not registered it clears the previous flag and no session is
  flagged active afterwards, whether or not the registry is empty.
\<close>

theorem setActiveTerminal_single_active:
  assumes "list_all host_id_ok evs" and "s = exec evs new_TerminalManager"
  shows "active_count s \<le> 1 \<and>
         activeTerminalId (setActiveTerminal terminalId s) = Some terminalId \<and>
         map fst (terminals (setActiveTerminal terminalId s)) = map fst (terminals s) \<and>
         active_count (setActiveTerminal terminalId s) =
           (if map_of (terminals s) terminalId = None then 0 else 1) \<and>
         (\<forall>t. map_of (terminals s) terminalId = Some t \<longrightarrow>
              (\<exists>t'. map_of (terminals (setActiveTerminal terminalId s)) terminalId = Some t' \<and>
                    isActive (state t')))"
proof -
  have ok: "registry_ok s"
    using assms registry_ok_exec [OF registry_ok_new] by simp
  then show ?thesis
    using active_count_le_1 [OF ok]
    by (simp add: active_count_setActiveTerminal isActive_setActiveTerminal)
qed

text \<open>The theorem at a run that creates the sessions A and B and then activates B.\<close>

theorem setActiveTerminal_single_active_witness:
  "list_all host_id_ok
     [CreateTerminal \<lparr>opt_name = None, opt_cwd = None\<rparr>,
      TerminalCreated (Success ''A'') 1,
      CreateTerminal \<lparr>opt_name = None, opt_cwd = None\<rparr>,
      TerminalCreated (Success ''B'') 2] \<and>
   active_count
     (exec [CreateTerminal \<lparr>opt_name = None, opt_cwd = None\<rparr>,
            TerminalCreated (Success ''A'') 1,
            CreateTerminal \<lparr>opt_name = None, opt_cwd = None\<rparr>,
            TerminalCreated (Success ''B'') 2]
        new_TerminalManager) \<le> 1 \<and>
   active_count
     (setActiveTerminal ''B''
        (exec [CreateTerminal \<lparr>opt_name = None, opt_cwd = None\<rparr>,
               TerminalCreated (Success ''A'') 1,
               CreateTerminal \<lparr>opt_name = None, opt_cwd = None\<rparr>,
               TerminalCreated (Success ''B'') 2]
           new_TerminalManager)) = 1"
proof -
  let ?evs = "[CreateTerminal \<lparr>opt_name = None, opt_cwd = None\<rparr>,
               TerminalCreated (Success ''A'') 1,
               CreateTerminal \<lparr>opt_name = None, opt_cwd = None\<rparr>,
               TerminalCreated (Success ''B'') 2]"
  have h: "list_all host_id_ok ?evs" by (simp add: truthy_def)
  have m: "map_of (terminals (exec ?evs new_TerminalManager)) ''B'' \<noteq> None" by code_simp
  from setActiveTerminal_single_active [OF h refl, of "''B''"] h m show ?thesis by simp
qed

text \<open>
  What claim C1 says of an identifier that is not registered does not hold: with the one
  session A registered and active, \<^verbatim>\<open>setActiveTerminal\<close> of an unknown identifier returns
  normally, records the unknown identifier as active, and leaves the registry with one
  session and none flagged active.
\<close>

theorem setActiveTerminal_unknown_counterexample:
  "activeTerminalId (setActiveTerminal ''zz''
       (exec [CreateTerminal \<lparr>opt_name = None, opt_cwd = None\<rparr>,
              TerminalCreated (Success ''A'') 1]
          new_TerminalManager)) = Some ''zz'' \<and>
   map fst (terminals (setActiveTerminal ''zz''
       (exec [CreateTerminal \<lparr>opt_name = None, opt_cwd = None\<rparr>,
              TerminalCreated (Success ''A'') 1]
          new_TerminalManager))) = [''A''] \<and>
   active_count (setActiveTerminal ''zz''
       (exec [CreateTerminal \<lparr>opt_name = None, opt_cwd = None\<rparr>,
              TerminalCreated (Success ''A'') 1]
          new_TerminalManager)) = 0"
  by code_simp

subsection \<open>Capacity\<close>

text \<open>No method changes \<^verbatim>\<open>maxTerminals\<close>.\<close>

lemma maxTerminals_closeTerminal [simp]: "maxTerminals (closeTerminal c s) = maxTerminals s"
  by (simp add: closeTerminal_def Let_def split: option.splits)

lemma maxTerminals_initializeTerminal [simp]:
  "maxTerminals (initializeTerminal c opts now s) = maxTerminals s"
  by (simp add: initializeTerminal_def Let_def)

lemma maxTerminals_fold_created_handler [simp]:
  "maxTerminals (fold (created_handler r now) hs s) = maxTerminals s"
  by (induction hs arbitrary: s) (simp_all add: created_handler_def Let_def split: create_response.splits)

lemma maxTerminals_fitAll_loop [simp]: "maxTerminals (fitAll_loop p es s) = maxTerminals s"
  by (induction p es s rule: fitAll_loop.induct)
     (simp_all add: sendResize_def fit_instance_def split: option.splits)

lemma maxTerminals_step: "maxTerminals (step e s) = maxTerminals s"
  by (cases e)
     (simp_all add: createTerminal_def on_TERMINAL_CREATED_def
        mountTerminal_def renameTerminal_def setViewMode_def setGridLayout_def fitAll_def
        fitTerminal_def sendResize_def fit_instance_def writeToActive_def sendCommand_def
        on_data_def on_TERMINAL_OUTPUT_ID_def on_TERMINAL_DESTROYED_def split: option.splits)

lemma maxTerminals_exec: "maxTerminals (exec evs new_TerminalManager) = 9"
proof -
  have "maxTerminals (fold step evs s) = maxTerminals s" for s
    by (induction evs arbitrary: s) (simp_all add: maxTerminals_step)
  then show ?thesis by (simp add: exec_def new_TerminalManager_def)
qed

text \<open>
  Claim C3. When the registry holds as many sessions as \<^verbatim>\<open>maxTerminals\<close> allows (nine, the
  value the constructor sets and no method changes), \<^verbatim>\<open>createTerminal\<close> is rejected
  and changes nothing: the manager is the one it was, so the registry and the active
  identifier are the same and no \<^verbatim>\<open>TERMINAL_CREATE\<close> request is sent.
\<close>

theorem createTerminal_at_capacity:
  assumes "maxTerminals s \<le> length (terminals s)"
  shows "createTerminal opts s = (Inl CapacityExceeded, s) \<and>
         terminals (snd (createTerminal opts s)) = terminals s \<and>
         activeTerminalId (snd (createTerminal opts s)) = activeTerminalId s \<and>
         sent (snd (createTerminal opts s)) = sent s"
  using assms by (simp add: createTerminal_def)

lemma nine: "maxTerminals nine_terminals = 9" "length (terminals nine_terminals) = 9"
  by code_simp+

text \<open>The theorem at a manager that holds nine terminals.\<close>

theorem createTerminal_at_capacity_witness:
  "maxTerminals nine_terminals \<le> length (terminals nine_terminals) \<and>
   length (terminals nine_terminals) = 9 \<and>
   createTerminal default_options nine_terminals = (Inl CapacityExceeded, nine_terminals)"
proof -
  have h: "maxTerminals nine_terminals \<le> length (terminals nine_terminals)"
    by (simp add: nine)
  from createTerminal_at_capacity [OF h] h show ?thesis by (simp add: nine)
qed

subsection \<open>Closing\<close>

lemma closeTerminal_keys:
  "map fst (terminals (closeTerminal c s)) = removeAll c (map fst (terminals s))"
proof (cases "map_of (terminals s) c")
  case None
  then have "c \<notin> set (map fst (terminals s))" by (simp add: map_of_eq_None_iff)
  with None show ?thesis by (simp add: closeTerminal_def)
next
  case (Some t)
  then show ?thesis by (simp add: closeTerminal_def Let_def AList.delete_keys)
qed

lemma closeTerminal_absent: "map_of (terminals s) c = None \<Longrightarrow> closeTerminal c s = s"
  by (simp add: closeTerminal_def)

lemma closeTerminal_removed: "map_of (terminals (closeTerminal c s)) c = None"
proof -
  have "c \<notin> set (map fst (terminals (closeTerminal c s)))"
    by (simp only: closeTerminal_keys) simp
  then show ?thesis by (simp add: map_of_eq_None_iff)
qed

lemma closeTerminal_logs:
  "map_of (terminals s) c = Some t \<Longrightarrow>
   sent (closeTerminal c s) = sent s @ [TERMINAL_DESTROY c] \<and>
   disposed (closeTerminal c s) = disposed s @ [c]"
  by (simp add: closeTerminal_def Let_def)

lemma on_TERMINAL_DESTROYED_eq: "on_TERMINAL_DESTROYED c s = closeTerminal c s"
  by (simp add: on_TERMINAL_DESTROYED_def closeTerminal_absent)

text \<open>
  Claim C4, as the code has it. The listener of \<^verbatim>\<open>TERMINAL_DESTROYED\<close> does exactly what
  \<^verbatim>\<open>closeTerminal\<close> does for the identifier: the session leaves the registry and, when it
  was registered, its emulator is disposed of and a \<^verbatim>\<open>TERMINAL_DESTROY\<close> request for the
  identifier is sent to the main process, as for a close the user asks for.
\<close>

theorem on_TERMINAL_DESTROYED_closes:
  "on_TERMINAL_DESTROYED terminalId s = closeTerminal terminalId s \<and>
   map fst (terminals (on_TERMINAL_DESTROYED terminalId s)) =
     removeAll terminalId (map fst (terminals s)) \<and>
   (map_of (terminals s) terminalId \<noteq> None \<longrightarrow>
      disposed (on_TERMINAL_DESTROYED terminalId s) = disposed s @ [terminalId] \<and>
      sent (on_TERMINAL_DESTROYED terminalId s) = sent s @ [TERMINAL_DESTROY terminalId])"
  using closeTerminal_logs [of s terminalId]
  by (auto simp: on_TERMINAL_DESTROYED_eq closeTerminal_keys)

text \<open>The theorem at a manager with the one session A.\<close>

theorem on_TERMINAL_DESTROYED_closes_witness:
  "map_of (terminals (exec (create_events ''A'' 1) new_TerminalManager)) ''A'' \<noteq> None \<and>
   sent (on_TERMINAL_DESTROYED ''A'' (exec (create_events ''A'' 1) new_TerminalManager)) =
     sent (exec (create_events ''A'' 1) new_TerminalManager) @ [TERMINAL_DESTROY ''A'']"
proof -
  have h: "map_of (terminals (exec (create_events ''A'' 1) new_TerminalManager)) ''A'' \<noteq> None"
    by code_simp
  from on_TERMINAL_DESTROYED_closes [of "''A''" "exec (create_events ''A'' 1) new_TerminalManager"] h
  show ?thesis by blast
qed

text \<open>
  What claim C4 says of the destroy request does not hold: after the session A is created
  and the main process reports that it ended, the messages sent are the creation request
  and a \<^verbatim>\<open>TERMINAL_DESTROY\<close> request for A.
\<close>

theorem on_TERMINAL_DESTROYED_counterexample:
  "sent (exec (create_events ''A'' 1 @ [TerminalDestroyed ''A'']) new_TerminalManager) =
     [TERMINAL_CREATE None, TERMINAL_DESTROY ''A'']"
  by code_simp

text \<open>
  Claim C5. \<^verbatim>\<open>closeTerminal\<close> of an identifier that is not registered returns the manager
  as it is: the registry, the active identifier, the view mode, the grid layout and the
  logs are the same. After \<^verbatim>\<open>closeTerminal\<close> the identifier is not registered, so closing it
  again changes nothing, and neither does a \<^verbatim>\<open>TERMINAL_DESTROYED\<close> message for it that
  arrives later.
\<close>

theorem closeTerminal_idempotent:
  "(map_of (terminals s) terminalId = None \<longrightarrow> closeTerminal terminalId s = s) \<and>
   map_of (terminals (closeTerminal terminalId s)) terminalId = None \<and>
   closeTerminal terminalId (closeTerminal terminalId s) = closeTerminal terminalId s \<and>
   on_TERMINAL_DESTROYED terminalId (closeTerminal terminalId s) = closeTerminal terminalId s"
  by (simp add: closeTerminal_absent closeTerminal_removed on_TERMINAL_DESTROYED_eq)

text \<open>The theorem at a manager with the one session A: closing B changes nothing, and
  when A is closed and the main process then reports its end, A is disposed of once.\<close>

theorem closeTerminal_idempotent_witness:
  "map_of (terminals (exec (create_events ''A'' 1) new_TerminalManager)) ''B'' = None \<and>
   closeTerminal ''B'' (exec (create_events ''A'' 1) new_TerminalManager) =
     exec (create_events ''A'' 1) new_TerminalManager \<and>
   disposed (exec (create_events ''A'' 1 @ [CloseTerminal ''A'', TerminalDestroyed ''A''])
      new_TerminalManager) = [''A'']"
proof -
  have h: "map_of (terminals (exec (create_events ''A'' 1) new_TerminalManager)) ''B'' = None"
    by code_simp
  have d: "disposed (exec (create_events ''A'' 1 @ [CloseTerminal ''A'', TerminalDestroyed ''A''])
      new_TerminalManager) = [''A'']" by code_simp
  from closeTerminal_idempotent [of "exec (create_events ''A'' 1) new_TerminalManager" "''B''"] h d
  show ?thesis by blast
qed

subsection \<open>Listing\<close>

text \<open>
  Claim C7. \<^verbatim>\<open>getTerminalStates\<close> returns the states of the registered sessions, each
  once, in ascending order of \<^verbatim>\<open>createdAt\<close>; the sessions with the same \<^verbatim>\<open>createdAt\<close>
  come in the order in which the registry holds them, which is the order of insertion.
\<close>

theorem getTerminalStates_sorted_stable:
  "sorted (map createdAt (getTerminalStates s)) \<and>
   mset (getTerminalStates s) = mset (map (\<lambda>(k, t). state t) (terminals s)) \<and>
   (\<forall>c. filter (\<lambda>x. createdAt x = c) (getTerminalStates s) =
        filter (\<lambda>x. createdAt x = c) (map (\<lambda>(k, t). state t) (terminals s)))"
  by (simp add: getTerminalStates_def sort_key_stable)

subsection \<open>Renaming\<close>

text \<open>
  Claim C8. \<^verbatim>\<open>renameTerminal\<close> of a registered identifier sets the fields \<^verbatim>\<open>name\<close> and
  \<^verbatim>\<open>customName\<close> of that session and nothing else in it; the other sessions and the order
  of the registry are the same; apart from the registry and the log of notifications the
  manager is the same, so the active identifier, the view mode, the grid layout and the
  messages sent are unchanged. A \<^verbatim>\<open>TERMINAL_DESTROYED\<close> message for the identifier that
  arrives afterwards still removes the session and disposes of its emulator.
\<close>

theorem renameTerminal_only_name:
  assumes "map_of (terminals s) terminalId = Some t"
    and "s' = renameTerminal terminalId newName s"
  shows "map fst (terminals s') = map fst (terminals s) \<and>
         map_of (terminals s') terminalId =
           Some (t\<lparr>state := (state t)\<lparr>customName := Some newName, name := newName\<rparr>\<rparr>) \<and>
         (\<forall>k. k \<noteq> terminalId \<longrightarrow> map_of (terminals s') k = map_of (terminals s) k) \<and>
         s'\<lparr>terminals := terminals s, notified := notified s\<rparr> = s \<and>
         activeTerminalId s' = activeTerminalId s \<and> viewMode s' = viewMode s \<and>
         gridLayout s' = gridLayout s \<and> sent s' = sent s \<and> disposed s' = disposed s \<and>
         map_of (terminals (on_TERMINAL_DESTROYED terminalId s')) terminalId = None \<and>
         map fst (terminals (on_TERMINAL_DESTROYED terminalId s')) =
           removeAll terminalId (map fst (terminals s)) \<and>
         disposed (on_TERMINAL_DESTROYED terminalId s') = disposed s @ [terminalId]"
proof -
  have s': "s' = notifyStateChange
      (s\<lparr>terminals := AList.map_entry terminalId (set_name newName) (terminals s)\<rparr>)"
    using assms by (simp add: renameTerminal_def)
  have present: "map_of (terminals s') terminalId =
      Some (t\<lparr>state := (state t)\<lparr>customName := Some newName, name := newName\<rparr>\<rparr>)"
    using assms(1) by (simp add: s' AList.map_of_map_entry set_name_def)
  have keys: "map fst (terminals s') = map fst (terminals s)"
    by (simp add: s' map_entry_keys)
  have others: "\<forall>k. k \<noteq> terminalId \<longrightarrow> map_of (terminals s') k = map_of (terminals s) k"
    by (simp add: s' AList.map_of_map_entry)
  have frame: "s'\<lparr>terminals := terminals s, notified := notified s\<rparr> = s"
    by (simp add: s' notifyStateChange_def)
  have fields: "activeTerminalId s' = activeTerminalId s" "viewMode s' = viewMode s"
    "gridLayout s' = gridLayout s" "sent s' = sent s" "disposed s' = disposed s"
    by (simp_all add: s')
  have exit: "map_of (terminals (on_TERMINAL_DESTROYED terminalId s')) terminalId = None"
    "map fst (terminals (on_TERMINAL_DESTROYED terminalId s')) =
       removeAll terminalId (map fst (terminals s))"
    "disposed (on_TERMINAL_DESTROYED terminalId s') = disposed s @ [terminalId]"
    using closeTerminal_logs [OF present] 
    by (simp_all add: on_TERMINAL_DESTROYED_eq closeTerminal_removed closeTerminal_keys keys fields)
  from present keys others frame fields exit show ?thesis by blast
qed

text \<open>The theorem at a manager with the sessions A and B, where A is renamed.\<close>

theorem renameTerminal_only_name_witness:
  "map_of (terminals (exec (create_events ''A'' 1 @ create_events ''B'' 2) new_TerminalManager)) ''A'' =
     Some \<lparr>terminal = new_Terminal, element = \<lparr>parentNode = None\<rparr>,
           state = \<lparr>state_id = ''A'', name = ''Terminal 1'', customName = None, isActive = True,
                    createdAt = 1\<rparr>,
           opened = False\<rparr> \<and>
   map_of (terminals (renameTerminal ''A'' ''build''
       (exec (create_events ''A'' 1 @ create_events ''B'' 2) new_TerminalManager))) ''A'' =
     Some \<lparr>terminal = new_Terminal, element = \<lparr>parentNode = None\<rparr>,
           state = \<lparr>state_id = ''A'', name = ''build'', customName = Some ''build'',
                    isActive = True, createdAt = 1\<rparr>,
           opened = False\<rparr> \<and>
   map fst (terminals (on_TERMINAL_DESTROYED ''A'' (renameTerminal ''A'' ''build''
       (exec (create_events ''A'' 1 @ create_events ''B'' 2) new_TerminalManager)))) = [''B'']"
proof -
  let ?s = "exec (create_events ''A'' 1 @ create_events ''B'' 2) new_TerminalManager"
  have h: "map_of (terminals ?s) ''A'' =
     Some \<lparr>terminal = new_Terminal, element = \<lparr>parentNode = None\<rparr>,
           state = \<lparr>state_id = ''A'', name = ''Terminal 1'', customName = None, isActive = True,
                    createdAt = 1\<rparr>,
           opened = False\<rparr>" by code_simp
  have k: "map fst (terminals ?s) = [''A'', ''B'']" by code_simp
  from renameTerminal_only_name [OF h refl, of "''build''"] h k show ?thesis by simp
qed

subsection \<open>Notification\<close>

lemma snapshot_of_notified [simp]: "snapshot_of (s\<lparr>notified := n\<rparr>) = snapshot_of s"
  by (simp add: snapshot_of_def getTerminalStates_def)

lemma snapshot_of_notify [simp]: "snapshot_of (notifyStateChange s) = snapshot_of s"
  by (simp add: notifyStateChange_def)

lemma notify_last:
  "onStateChange s \<Longrightarrow>
   notified (notifyStateChange s) = notified s @ [snapshot_of (notifyStateChange s)]"
  by (simp add: notifyStateChange_def)

lemma notified_setActiveTerminal:
  "onStateChange s \<Longrightarrow>
   notified (setActiveTerminal c s) = notified s @ [snapshot_of (setActiveTerminal c s)]"
  by (simp add: setActiveTerminal_def Let_def notify_last split: option.splits)

lemma notified_setViewMode:
  "onStateChange s \<Longrightarrow> notified (setViewMode m s) = notified s @ [snapshot_of (setViewMode m s)]"
  by (simp add: setViewMode_def notify_last)

lemma notified_setGridLayout:
  "onStateChange s \<Longrightarrow>
   notified (setGridLayout l s) = notified s @ [snapshot_of (setGridLayout l s)]"
  by (simp add: setGridLayout_def notify_last)

lemma notified_renameTerminal:
  "onStateChange s \<Longrightarrow>
   notified (renameTerminal c n s) =
     notified s @ (if map_of (terminals s) c = None then [] else [snapshot_of (renameTerminal c n s)])"
  by (auto simp: renameTerminal_def notify_last split: option.splits)

text \<open>A method that calls \<^verbatim>\<open>setActiveTerminal\<close> and then notifies once more.\<close>

lemma notified_twice:
  assumes "onStateChange s"
  shows "notified (notifyStateChange (setActiveTerminal c s)) =
           notified s @ replicate 2 (snapshot_of (notifyStateChange (setActiveTerminal c s)))"
proof -
  have "notified (notifyStateChange (setActiveTerminal c s)) =
          notified (setActiveTerminal c s) @ [snapshot_of (notifyStateChange (setActiveTerminal c s))]"
    using assms by (simp add: notify_last)
  also have "notified (setActiveTerminal c s) =
          notified s @ [snapshot_of (notifyStateChange (setActiveTerminal c s))]"
    using assms by (simp add: notified_setActiveTerminal)
  finally show ?thesis by (simp add: numeral_2_eq_2)
qed

lemma notified_closeTerminal:
  assumes "onStateChange s"
  shows "notified (closeTerminal c s) =
     notified s @
       replicate (if map_of (terminals s) c = None then 0 else if close_switches c s then 2 else 1)
         (snapshot_of (closeTerminal c s))"
proof (cases "map_of (terminals s) c")
  case None
  then show ?thesis by (simp add: closeTerminal_def)
next
  case (Some t)
  show ?thesis
  proof (cases "close_switches c s")
    case True
    let ?l = "last (map fst (AList.delete c (terminals s)))"
    let ?s1 = "s\<lparr>disposed := disposed s @ [c], terminals := AList.delete c (terminals s),
                  sent := sent s @ [TERMINAL_DESTROY c], activeTerminalId := Some ?l\<rparr>"
    from True have l: "truthy ?l" by (simp add: close_switches_def last_map)
    have "closeTerminal c s = notifyStateChange (setActiveTerminal ?l ?s1)"
      using Some True l by (simp add: closeTerminal_def Let_def close_switches_def)
    moreover have "onStateChange ?s1" "notified ?s1 = notified s" using assms by simp_all
    ultimately show ?thesis
      using Some True notified_twice [of ?s1 ?l] by simp
  next
    case False
    then show ?thesis using Some assms
      by (auto simp: closeTerminal_def Let_def close_switches_def notify_last last_map)
  qed
qed

lemma notified_initializeTerminal:
  assumes "onStateChange s"
  shows "notified (initializeTerminal c opts now s) =
     notified s @
       replicate (if length (terminals (initializeTerminal c opts now s)) = 1 \<or>
                     \<not> truthy_opt (activeTerminalId s) then 2 else 1)
         (snapshot_of (initializeTerminal c opts now s))"
proof -
  define s0 where "s0 = (if truthy_opt (opt_name opts) then s
                else s\<lparr>terminalCounter := terminalCounter s + 1\<rparr>)"
  define t where "t = \<lparr>terminal = new_Terminal, element = \<lparr>parentNode = None\<rparr>, state = \<lparr>state_id = c, name = (case opt_name opts of
                  None \<Rightarrow> ''Terminal '' @ decimal (terminalCounter s0)
                | Some n \<Rightarrow> if truthy n then n else ''Terminal '' @ decimal (terminalCounter s0)),
             customName = None, isActive = False, createdAt = now\<rparr>, opened = False\<rparr>"
  define s1 where "s1 = s0\<lparr>terminals := AList.update c t (terminals s0)\<rparr>"
  have init: "initializeTerminal c opts now s =
      notifyStateChange (if length (terminals s1) = 1 \<or> \<not> truthy_opt (activeTerminalId s1)
         then setActiveTerminal c s1 else s1)"
    unfolding initializeTerminal_def Let_def s1_def t_def s0_def by (rule refl)
  have s1: "onStateChange s1" "notified s1 = notified s" "activeTerminalId s1 = activeTerminalId s"
    using assms by (simp_all add: s1_def s0_def)
  have len: "length (terminals (initializeTerminal c opts now s)) = length (terminals s1)"
    unfolding init using arg_cong [OF setActiveTerminal_fields(10) [of c s1], of length]
    by (simp del: setActiveTerminal_fields)
  show ?thesis
  proof (cases "length (terminals s1) = 1 \<or> \<not> truthy_opt (activeTerminalId s1)")
    case True
    then have "initializeTerminal c opts now s = notifyStateChange (setActiveTerminal c s1)"
      by (simp add: init)
    with True s1 len notified_twice [of s1 c] show ?thesis by simp
  next
    case False
    then have "initializeTerminal c opts now s = notifyStateChange s1" by (simp add: init)
    with False s1 len notify_last [of s1] show ?thesis by simp
  qed
qed

text \<open>
  Claim C6, as the code has it. With a callback installed, \<^verbatim>\<open>setActiveTerminal\<close>,
  \<^verbatim>\<open>setViewMode\<close> and \<^verbatim>\<open>setGridLayout\<close> each notify exactly once. \<^verbatim>\<open>renameTerminal\<close>
  and \<^verbatim>\<open>closeTerminal\<close> do not notify when the identifier is not registered;
  \<^verbatim>\<open>renameTerminal\<close> of a registered identifier notifies once. \<^verbatim>\<open>closeTerminal\<close> of a
  registered identifier notifies once, and twice when it moves the activation to a remaining
  session. The completion of a creation (\<^verbatim>\<open>_initializeTerminal\<close>) notifies once, and twice
  when it activates the new session, which it does when that session is the only one or no
  truthy active identifier is set. Every notification of a method carries the snapshot
  (ordered session list, active identifier, view mode, grid layout) of the state in which
  the method leaves the manager.
\<close>

theorem notifications_per_operation:
  assumes "onStateChange s"
  shows "notified (setActiveTerminal i s) = notified s @ [snapshot_of (setActiveTerminal i s)] \<and>
         notified (setViewMode mode s) = notified s @ [snapshot_of (setViewMode mode s)] \<and>
         notified (setGridLayout layout s) = notified s @ [snapshot_of (setGridLayout layout s)] \<and>
         notified (renameTerminal i newName s) =
           notified s @ (if map_of (terminals s) i = None then []
                         else [snapshot_of (renameTerminal i newName s)]) \<and>
         notified (closeTerminal i s) =
           notified s @
             replicate (if map_of (terminals s) i = None then 0
                        else if close_switches i s then 2 else 1)
               (snapshot_of (closeTerminal i s)) \<and>
         notified (initializeTerminal i opts now s) =
           notified s @
             replicate (if length (terminals (initializeTerminal i opts now s)) = 1 \<or>
                           \<not> truthy_opt (activeTerminalId s) then 2 else 1)
               (snapshot_of (initializeTerminal i opts now s))"
  using assms
  by (simp only: notified_setActiveTerminal notified_setViewMode notified_setGridLayout
      notified_renameTerminal notified_closeTerminal notified_initializeTerminal simp_thms)

text \<open>The theorem at a manager with a callback and the sessions A (active) and B:
  setting the view mode notifies once, closing A notifies twice.\<close>

theorem notifications_per_operation_witness:
  "onStateChange (exec (SetOnStateChange True # create_events ''A'' 1 @ create_events ''B'' 2)
      new_TerminalManager) \<and>
   notified (setViewMode ''grid''
      (exec (SetOnStateChange True # create_events ''A'' 1 @ create_events ''B'' 2)
         new_TerminalManager)) =
     notified (exec (SetOnStateChange True # create_events ''A'' 1 @ create_events ''B'' 2)
         new_TerminalManager) @
     [snapshot_of (setViewMode ''grid''
        (exec (SetOnStateChange True # create_events ''A'' 1 @ create_events ''B'' 2)
           new_TerminalManager))] \<and>
   notified (closeTerminal ''A''
      (exec (SetOnStateChange True # create_events ''A'' 1 @ create_events ''B'' 2)
         new_TerminalManager)) =
     notified (exec (SetOnStateChange True # create_events ''A'' 1 @ create_events ''B'' 2)
         new_TerminalManager) @
     [snapshot_of (closeTerminal ''A''
        (exec (SetOnStateChange True # create_events ''A'' 1 @ create_events ''B'' 2)
           new_TerminalManager)),
      snapshot_of (closeTerminal ''A''
        (exec (SetOnStateChange True # create_events ''A'' 1 @ create_events ''B'' 2)
           new_TerminalManager))]"
proof -
  let ?s = "exec (SetOnStateChange True # create_events ''A'' 1 @ create_events ''B'' 2)
      new_TerminalManager"
  have h: "onStateChange ?s" by code_simp
  have m: "map_of (terminals ?s) ''A'' \<noteq> None" by code_simp
  have c: "close_switches ''A'' ?s" by code_simp
  from notifications_per_operation [OF h, of "''A''" "''grid''"] h m c
  show ?thesis by (simp add: numeral_2_eq_2)
qed

text \<open>
  What claim C6 says of the number of notifications does not hold: the creation of the
  first session notifies twice, and renaming an identifier that is not registered does not
  notify.
\<close>

theorem notifications_counterexample:
  "length (notified (exec (SetOnStateChange True # create_events ''A'' 1) new_TerminalManager)) = 2 \<and>
   notified (renameTerminal ''zz'' ''x'' (exec [SetOnStateChange True] new_TerminalManager)) = []"
  by code_simp

subsection \<open>Mounting\<close>

lemma mo_map_entry:
  "list_all (\<lambda>(k, t). mounted t \<longrightarrow> opened t) ts \<Longrightarrow>
   (\<And>t. (mounted t \<longrightarrow> opened t) \<Longrightarrow> (mounted (f t) \<longrightarrow> opened (f t))) \<Longrightarrow>
   list_all (\<lambda>(k, t). mounted t \<longrightarrow> opened t) (AList.map_entry c f ts)"
  by (induction ts) auto

lemma mo_update:
  "list_all (\<lambda>(k, t). mounted t \<longrightarrow> opened t) ts \<Longrightarrow> (mounted t \<longrightarrow> opened t) \<Longrightarrow>
   list_all (\<lambda>(k, t). mounted t \<longrightarrow> opened t) (AList.update c t ts)"
  by (induction ts) auto

lemma mo_delete:
  "list_all (\<lambda>(k, t). mounted t \<longrightarrow> opened t) ts \<Longrightarrow>
   list_all (\<lambda>(k, t). mounted t \<longrightarrow> opened t) (AList.delete c ts)"
  by (induction ts) auto

lemma mo_clear_container:
  "list_all (\<lambda>(k, t). mounted t \<longrightarrow> opened t) ts \<Longrightarrow>
   list_all (\<lambda>(k, t). mounted t \<longrightarrow> opened t) (clear_container c ts)"
  by (induction ts) (auto simp: clear_container_def mounted_def)

lemma mounted_fields [simp]:
  "mounted (set_isActive b t) = mounted t"
  "mounted (set_name n t) = mounted t"
  "mounted (write_instance d t) = mounted t"
  "mounted (t\<lparr>terminal := e\<rparr>) = mounted t"
  "\<not> mounted \<lparr>terminal = e, element = \<lparr>parentNode = None\<rparr>, state = st, opened = b\<rparr>"
  by (simp_all add: mounted_def set_isActive_def set_name_def write_instance_def)

lemma opened_fields [simp]:
  "opened (set_isActive b t) = opened t"
  "opened (set_name n t) = opened t"
  "opened (write_instance d t) = opened t"
  by (simp_all add: set_isActive_def set_name_def write_instance_def)

lemma mounted_opened_notify [simp]: "mounted_opened (notifyStateChange s) = mounted_opened s"
  by (simp add: mounted_opened_def)

lemma mounted_opened_setActiveTerminal:
  "mounted_opened s \<Longrightarrow> mounted_opened (setActiveTerminal c s)"
  by (auto simp: mounted_opened_def terminals_setActiveTerminal
      intro!: mo_map_entry split: option.splits)

lemma mounted_opened_closeTerminal:
  assumes "mounted_opened s"
  shows "mounted_opened (closeTerminal c s)"
proof (cases "map_of (terminals s) c")
  case None
  with assms show ?thesis by (simp add: closeTerminal_def)
next
  case (Some t)
  have *: "mounted_opened s'" if "terminals s' = AList.delete c (terminals s)" for s'
    using assms that by (simp add: mounted_opened_def mo_delete)
  have **: "mounted_opened (setActiveTerminal l s')"
    if "terminals s' = AList.delete c (terminals s)" for s' l
    using that by (intro mounted_opened_setActiveTerminal *)
  show ?thesis using Some
    by (simp add: closeTerminal_def Let_def * **)
qed

lemma mounted_opened_initializeTerminal:
  assumes "mounted_opened s"
  shows "mounted_opened (initializeTerminal c opts now s)"
proof -
  have *: "mounted_opened s'"
    if "terminals s' = AList.update c t (terminals s)" "\<not> mounted t" for s' t
    using assms that by (simp add: mounted_opened_def mo_update)
  show ?thesis
    unfolding initializeTerminal_def Let_def
    by (auto intro!: mounted_opened_setActiveTerminal *)
qed

lemma mounted_opened_fold_created_handler:
  "mounted_opened s \<Longrightarrow> mounted_opened (fold (created_handler r now) hs s)"
proof (induction hs arbitrary: s)
  case Nil
  then show ?case by simp
next
  case (Cons h hs)
  have "mounted_opened (s\<lparr>created_handlers := remove1 h (created_handlers s)\<rparr>)"
    using Cons.prems by (simp add: mounted_opened_def)
  then have "mounted_opened (created_handler r now h s)"
    by (cases r) (simp_all add: created_handler_def Let_def mounted_opened_initializeTerminal)
  then show ?case by (simp add: Cons.IH)
qed

lemma mounted_opened_sendResize [simp]: "mounted_opened (sendResize c s) = mounted_opened s"
  by (simp add: sendResize_def mounted_opened_def split: option.splits)

lemma mounted_opened_fit_instance:
  "mounted_opened s \<Longrightarrow> mounted_opened (fit_instance p c s)"
  by (auto simp: fit_instance_def mounted_opened_def intro!: mo_map_entry)

lemma mounted_opened_fitAll_loop:
  "mounted_opened s \<Longrightarrow> mounted_opened (fitAll_loop p es s)"
  by (induction p es s rule: fitAll_loop.induct) (simp_all add: mounted_opened_fit_instance)

lemma mounted_opened_mountTerminal:
  "mounted_opened s \<Longrightarrow> mounted_opened (mountTerminal c k s)"
  by (auto simp: mountTerminal_def mounted_opened_def mo_clear_container
      intro!: mo_map_entry split: option.splits)

text \<open>No method call or message leaves a session mounted without its flag \<^verbatim>\<open>opened\<close>.\<close>

lemma mounted_opened_step:
  assumes "mounted_opened s"
  shows "mounted_opened (step e s)"
proof (cases e)
  case (CreateTerminal opts)
  with assms show ?thesis by (simp add: createTerminal_def mounted_opened_def)
next
  case (TerminalCreated r now)
  with assms show ?thesis
    by (simp add: on_TERMINAL_CREATED_def mounted_opened_fold_created_handler)
next
  case (MountTerminal i c)
  with assms show ?thesis by (simp add: mounted_opened_mountTerminal)
next
  case (ContainerEmptied c)
  with assms show ?thesis by (simp add: mounted_opened_def mo_clear_container)
next
  case (SetActiveTerminal i)
  with assms show ?thesis by (simp add: mounted_opened_setActiveTerminal)
next
  case (RenameTerminal i n)
  with assms show ?thesis
    by (auto simp: renameTerminal_def mounted_opened_def
        intro!: mo_map_entry split: option.splits)
next
  case (CloseTerminal i)
  with assms show ?thesis by (simp add: mounted_opened_closeTerminal)
next
  case (SetViewMode m)
  with assms show ?thesis by (simp add: setViewMode_def) (simp add: mounted_opened_def)
next
  case (SetGridLayout l)
  with assms show ?thesis by (simp add: setGridLayout_def) (simp add: mounted_opened_def)
next
  case (FitAll p)
  with assms show ?thesis by (simp add: fitAll_def mounted_opened_fitAll_loop)
next
  case (FitTerminal q i)
  with assms show ?thesis
    by (simp add: fitTerminal_def mounted_opened_fit_instance split: option.splits)
next
  case (WriteToActive d)
  with assms show ?thesis
    by (auto simp: writeToActive_def mounted_opened_def
        intro!: mo_map_entry split: option.splits)
next
  case (SendCommand d)
  with assms show ?thesis by (simp add: sendCommand_def mounted_opened_def split: option.splits)
next
  case (TerminalData i d)
  with assms show ?thesis by (simp add: on_data_def mounted_opened_def split: option.splits)
next
  case (TerminalOutput i d)
  with assms show ?thesis
    by (auto simp: on_TERMINAL_OUTPUT_ID_def mounted_opened_def intro!: mo_map_entry)
next
  case (TerminalDestroyed i)
  with assms show ?thesis
    by (simp add: on_TERMINAL_DESTROYED_def mounted_opened_closeTerminal)
next
  case (SetOnStateChange b)
  with assms show ?thesis by (simp add: mounted_opened_def)
qed

lemma mounted_opened_exec: "mounted_opened (exec evs new_TerminalManager)"
proof -
  have "mounted_opened s \<Longrightarrow> mounted_opened (fold step evs s)" for s
    by (induction evs arbitrary: s) (simp_all add: mounted_opened_step)
  moreover have "mounted_opened new_TerminalManager"
    by (simp add: mounted_opened_def new_TerminalManager_def)
  ultimately show ?thesis by (simp add: exec_def)
qed

subsection \<open>Fitting\<close>

lemma fitAll_loop_sent:
  "distinct (map fst es) \<Longrightarrow>
   \<forall>(i, t)\<in>set es. \<exists>t'. map_of (terminals s) i = Some t' \<and> terminal t' = terminal t \<Longrightarrow>
   sent (fitAll_loop p es s) =
     sent s @ map (\<lambda>(i, t). TERMINAL_RESIZE_ID i (cols (fit (p i) (terminal t)))
                                (rows (fit (p i) (terminal t))))
                (filter (\<lambda>(i, t). opened t) es)"
proof (induction p es s rule: fitAll_loop.induct)
  case (1 p s)
  show ?case by simp
next
  case (2 p i t rest s)
  let ?s' = "if opened t then sendResize i (fit_instance p i s) else s"
  from "2.prems" obtain t' where t': "map_of (terminals s) i = Some t'" "terminal t' = terminal t"
    by auto
  have other: "map_of (terminals ?s') j = map_of (terminals s) j" if "j \<noteq> i" for j
    using that by (simp add: sendResize_def fit_instance_def AList.map_of_map_entry split: option.splits)
  have "distinct (map fst rest)" using "2.prems"(1) by simp
  moreover have "\<forall>(j, u)\<in>set rest. \<exists>u'. map_of (terminals ?s') j = Some u' \<and> terminal u' = terminal u"
  proof (clarify)
    fix j u assume ju: "(j, u) \<in> set rest"
    with "2.prems"(1) have "j \<noteq> i" by force
    with ju "2.prems"(2) other [of j]
    show "\<exists>u'. map_of (terminals ?s') j = Some u' \<and> terminal u' = terminal u" by auto
  qed
  ultimately have IH: "sent (fitAll_loop p rest ?s') =
     sent ?s' @ map (\<lambda>(i, t). TERMINAL_RESIZE_ID i (cols (fit (p i) (terminal t)))
                                (rows (fit (p i) (terminal t))))
                (filter (\<lambda>(i, t). opened t) rest)"
    by (rule "2.IH")
  have "sent ?s' = sent s @ (if opened t then [TERMINAL_RESIZE_ID i (cols (fit (p i) (terminal t)))
                                (rows (fit (p i) (terminal t)))] else [])"
    using t' by (simp add: sendResize_def fit_instance_def AList.map_of_map_entry)
  with IH show ?case by simp
qed

text \<open>
  Claim C9, as the code has it. \<^verbatim>\<open>fitAll\<close> goes by the flag \<^verbatim>\<open>opened\<close>, which
  \<^verbatim>\<open>mountTerminal\<close> sets and nothing clears. One call of \<^verbatim>\<open>fitAll\<close> sends, after the
  messages sent before, one \<^verbatim>\<open>TERMINAL_RESIZE_ID\<close> message for each session whose flag is
  set, in the order of the registry, and none for a session that was never mounted; the
  message of a session carries the columns and rows its emulator has after \<^verbatim>\<open>fit\<close>.
  Every session that is mounted has the flag set and so gets its message; a session that
  was mounted before and is in no container any more gets one too. The keys of the map
  are distinct, and in every run a mounted session has its flag set.
\<close>

theorem fitAll_one_resize_per_opened:
  assumes "distinct (map fst (terminals s))" and "mounted_opened s"
  shows "sent (fitAll proposals s) =
     sent s @ map (\<lambda>(i, t). TERMINAL_RESIZE_ID i (cols (fit (proposals i) (terminal t)))
                                (rows (fit (proposals i) (terminal t))))
                (filter (\<lambda>(i, t). opened t) (terminals s)) \<and>
     (\<forall>(i, t)\<in>set (terminals s). mounted t \<longrightarrow>
        TERMINAL_RESIZE_ID i (cols (fit (proposals i) (terminal t)))
          (rows (fit (proposals i) (terminal t))) \<in> set (sent (fitAll proposals s)))"
proof -
  have eq: "sent (fitAll proposals s) =
     sent s @ map (\<lambda>(i, t). TERMINAL_RESIZE_ID i (cols (fit (proposals i) (terminal t)))
                                (rows (fit (proposals i) (terminal t))))
                (filter (\<lambda>(i, t). opened t) (terminals s))"
    unfolding fitAll_def using assms(1)
    by (intro fitAll_loop_sent) (auto simp: map_of_eq_Some_iff)
  have "\<forall>(i, t)\<in>set (terminals s). mounted t \<longrightarrow> opened t"
    using assms(2) by (simp add: mounted_opened_def list_all_iff)
  then have "\<forall>(i, t)\<in>set (terminals s). mounted t \<longrightarrow>
        TERMINAL_RESIZE_ID i (cols (fit (proposals i) (terminal t)))
          (rows (fit (proposals i) (terminal t))) \<in> set (sent (fitAll proposals s))"
    unfolding eq by force
  with eq show ?thesis by (rule conjI)
qed

text \<open>The theorem at a manager with the sessions A, B and C, where A was mounted in a
  container, B was then mounted in the same container, and C was never mounted: A and B
  get a message, C gets none.\<close>

theorem fitAll_one_resize_per_opened_witness:
  "distinct (map fst (terminals
      (exec (create_events ''A'' 1 @ create_events ''B'' 2 @ create_events ''C'' 3 @
             [MountTerminal ''A'' (Some 0), MountTerminal ''B'' (Some 0)])
         new_TerminalManager))) \<and>
   mounted_opened
      (exec (create_events ''A'' 1 @ create_events ''B'' 2 @ create_events ''C'' 3 @
             [MountTerminal ''A'' (Some 0), MountTerminal ''B'' (Some 0)])
         new_TerminalManager) \<and>
   sent (fitAll (\<lambda>i. if i = ''B'' then Some (100, 30) else None)
      (exec (create_events ''A'' 1 @ create_events ''B'' 2 @ create_events ''C'' 3 @
             [MountTerminal ''A'' (Some 0), MountTerminal ''B'' (Some 0)])
         new_TerminalManager)) =
     [TERMINAL_CREATE None, TERMINAL_CREATE None, TERMINAL_CREATE None,
      TERMINAL_RESIZE_ID ''A'' 80 24, TERMINAL_RESIZE_ID ''B'' 100 30]"
proof -
  let ?s = "exec (create_events ''A'' 1 @ create_events ''B'' 2 @ create_events ''C'' 3 @
             [MountTerminal ''A'' (Some 0), MountTerminal ''B'' (Some 0)])
         new_TerminalManager"
  have h: "distinct (map fst (terminals ?s))" by code_simp
  have m: "mounted_opened ?s" by (rule mounted_opened_exec)
  have t: "terminals ?s =
     [(''A'', \<lparr>terminal = new_Terminal, element = \<lparr>parentNode = None\<rparr>,
           state = \<lparr>state_id = ''A'', name = ''Terminal 1'', customName = None, isActive = True,
                    createdAt = 1\<rparr>, opened = True\<rparr>),
      (''B'', \<lparr>terminal = new_Terminal, element = \<lparr>parentNode = Some 0\<rparr>,
           state = \<lparr>state_id = ''B'', name = ''Terminal 2'', customName = None, isActive = False,
                    createdAt = 2\<rparr>, opened = True\<rparr>),
      (''C'', \<lparr>terminal = new_Terminal, element = \<lparr>parentNode = None\<rparr>,
           state = \<lparr>state_id = ''C'', name = ''Terminal 3'', customName = None, isActive = False,
                    createdAt = 3\<rparr>, opened = False\<rparr>)]" by code_simp
  have n: "sent ?s = [TERMINAL_CREATE None, TERMINAL_CREATE None, TERMINAL_CREATE None]" by code_simp
  from fitAll_one_resize_per_opened [OF h m, of "\<lambda>i. if i = ''B'' then Some (100, 30) else None"]
  have "sent (fitAll (\<lambda>i. if i = ''B'' then Some (100, 30) else None) ?s) =
     sent ?s @ map (\<lambda>(i, t). TERMINAL_RESIZE_ID i
          (cols (fit (if i = ''B'' then Some (100, 30) else None) (terminal t)))
          (rows (fit (if i = ''B'' then Some (100, 30) else None) (terminal t))))
        (filter (\<lambda>(i, t). opened t) (terminals ?s))" by (rule conjunct1)
  then have e: "sent (fitAll (\<lambda>i. if i = ''B'' then Some (100, 30) else None) ?s) =
      [TERMINAL_CREATE None, TERMINAL_CREATE None, TERMINAL_CREATE None,
       TERMINAL_RESIZE_ID ''A'' 80 24, TERMINAL_RESIZE_ID ''B'' 100 30]"
    unfolding t n by (simp add: fit_def new_Terminal_def)
  from h m e show ?thesis by (intro conjI)
qed

text \<open>
  What claim C9 says of the sessions that are not mounted does not hold. The sessions A
  and B are created, A is mounted in a container and then B is mounted in the same
  container, which takes A out of it. Only B is mounted, and its fit proposes 100 columns
  and 30 rows; the fit of A, which is in no container, proposes nothing. \<^verbatim>\<open>fitAll\<close> sends
  a message for A all the same, with the size A had.
\<close>

theorem fitAll_unmounted_counterexample:
  "map fst (filter (\<lambda>(i, t). mounted t)
      (terminals
        (exec (create_events ''A'' 1 @ create_events ''B'' 2 @
               [MountTerminal ''A'' (Some 0), MountTerminal ''B'' (Some 0)])
           new_TerminalManager))) = [''B''] \<and>
   sent (fitAll (\<lambda>i. if i = ''B'' then Some (100, 30) else None)
      (exec (create_events ''A'' 1 @ create_events ''B'' 2 @
             [MountTerminal ''A'' (Some 0), MountTerminal ''B'' (Some 0)])
         new_TerminalManager)) =
     [TERMINAL_CREATE None, TERMINAL_CREATE None,
      TERMINAL_RESIZE_ID ''A'' 80 24, TERMINAL_RESIZE_ID ''B'' 100 30]"
  by code_simp

subsection \<open>Default names\<close>

lemma decimal_nonempty: "decimal n \<noteq> []"
  by (subst decimal.simps) simp

lemma digit_inj:
  assumes "a < 10" "b < 10" "''0123456789'' ! a = ''0123456789'' ! b"
  shows "a = b"
proof -
  have "distinct ''0123456789''" by simp
  moreover have "a < length ''0123456789''" "b < length ''0123456789''" using assms by simp_all
  ultimately show ?thesis using assms(3) by (simp only: nth_eq_iff_index_eq)
qed

lemma decimal_inj: "decimal m = decimal n \<Longrightarrow> m = n"
proof (induction m arbitrary: n rule: decimal.induct)
  case (1 m)
  show ?case
  proof (cases "m < 10")
    case True
    then have dm: "decimal m = [''0123456789'' ! m]" by (subst decimal.simps) simp
    show ?thesis
    proof (cases "n < 10")
      case n: True
      then have "decimal n = [''0123456789'' ! n]" by (subst decimal.simps) simp
      with dm "1.prems" have "''0123456789'' ! m = ''0123456789'' ! n" by simp
      with True n show ?thesis by (rule digit_inj)
    next
      case False
      then have "decimal n = decimal (n div 10) @ [''0123456789'' ! (n mod 10)]"
        by (subst decimal.simps) simp
      with dm "1.prems" decimal_nonempty [of "n div 10"] show ?thesis by simp
    qed
  next
    case False
    then have dm: "decimal m = decimal (m div 10) @ [''0123456789'' ! (m mod 10)]"
      by (subst decimal.simps) simp
    show ?thesis
    proof (cases "n < 10")
      case True
      then have "decimal n = [''0123456789'' ! n]" by (subst decimal.simps) simp
      with dm "1.prems" decimal_nonempty [of "m div 10"] show ?thesis by simp
    next
      case n: False
      then have "decimal n = decimal (n div 10) @ [''0123456789'' ! (n mod 10)]"
        by (subst decimal.simps) simp
      with dm "1.prems" have hi: "decimal (m div 10) = decimal (n div 10)"
        and lo: "''0123456789'' ! (m mod 10) = ''0123456789'' ! (n mod 10)" by simp_all
      from "1.IH" [OF False hi] have "m div 10 = n div 10" .
      moreover have "m mod 10 = n mod 10" using lo by (intro digit_inj) simp_all
      ultimately show ?thesis by (metis div_mult_mod_eq)
    qed
  qed
qed

lemma terminalCounter_closeTerminal [simp]:
  "terminalCounter (closeTerminal c s) = terminalCounter s"
  by (simp add: closeTerminal_def Let_def split: option.splits)

lemma terminalCounter_initializeTerminal:
  "terminalCounter (initializeTerminal c opts now s) =
     (if truthy_opt (opt_name opts) then terminalCounter s else terminalCounter s + 1)"
  by (simp add: initializeTerminal_def Let_def)

lemma terminalCounter_created_handler:
  "terminalCounter s \<le> terminalCounter (created_handler r now opts s)"
  by (cases r) (simp_all add: created_handler_def Let_def terminalCounter_initializeTerminal)

lemma terminalCounter_fold_created_handler:
  "terminalCounter s \<le> terminalCounter (fold (created_handler r now) hs s)"
proof (induction hs arbitrary: s)
  case Nil
  show ?case by simp
next
  case (Cons h hs)
  have "terminalCounter s \<le> terminalCounter (created_handler r now h s)"
    by (rule terminalCounter_created_handler)
  also have "\<dots> \<le> terminalCounter (fold (created_handler r now) hs (created_handler r now h s))"
    by (rule Cons.IH)
  finally show ?case by simp
qed

lemma terminalCounter_fitAll_loop [simp]:
  "terminalCounter (fitAll_loop p es s) = terminalCounter s"
  by (induction p es s rule: fitAll_loop.induct)
     (simp_all add: sendResize_def fit_instance_def split: option.splits)

lemma terminalCounter_step: "terminalCounter s \<le> terminalCounter (step e s)"
  by (cases e)
     (simp_all add: createTerminal_def on_TERMINAL_CREATED_def terminalCounter_fold_created_handler
        mountTerminal_def renameTerminal_def setViewMode_def setGridLayout_def fitAll_def
        fitTerminal_def sendResize_def fit_instance_def writeToActive_def sendCommand_def
        on_data_def on_TERMINAL_OUTPUT_ID_def on_TERMINAL_DESTROYED_def split: option.splits)

lemma terminalCounter_exec: "terminalCounter s \<le> terminalCounter (exec evs s)"
  unfolding exec_def
proof (induction evs arbitrary: s)
  case Nil
  show ?case by simp
next
  case (Cons e evs)
  have "terminalCounter s \<le> terminalCounter (step e s)" by (rule terminalCounter_step)
  also have "\<dots> \<le> terminalCounter (fold step evs (step e s))" by (rule Cons.IH)
  finally show ?case by simp
qed

lemma name_setActiveTerminal:
  "map_of (terminals s) k = Some t \<Longrightarrow>
   \<exists>t'. map_of (terminals (setActiveTerminal c s)) k = Some t' \<and> name (state t') = name (state t)"
  by (auto simp: terminals_setActiveTerminal AList.map_of_map_entry set_isActive_def
      split: option.splits)

lemma name_initializeTerminal:
  assumes "\<not> truthy_opt (opt_name opts)"
  shows "\<exists>t. map_of (terminals (initializeTerminal c opts now s)) c = Some t \<and>
             name (state t) = ''Terminal '' @ decimal (terminalCounter (initializeTerminal c opts now s))"
proof -
  define t where "t = \<lparr>terminal = new_Terminal, element = \<lparr>parentNode = None\<rparr>,
      state = \<lparr>state_id = c, name = ''Terminal '' @ decimal (terminalCounter s + 1),
               customName = None, isActive = False, createdAt = now\<rparr>, opened = False\<rparr>"
  define s1 where "s1 = s\<lparr>terminalCounter := terminalCounter s + 1,
      terminals := AList.update c t (terminals s)\<rparr>"
  have init: "initializeTerminal c opts now s =
      notifyStateChange (if length (terminals s1) = 1 \<or> \<not> truthy_opt (activeTerminalId s1)
         then setActiveTerminal c s1 else s1)"
    using assms by (cases "opt_name opts") (simp_all add: initializeTerminal_def Let_def s1_def t_def)
  have m: "map_of (terminals s1) c = Some t" by (simp add: s1_def AList.update_conv')
  have n: "name (state t) = ''Terminal '' @ decimal (terminalCounter s + 1)" by (simp add: t_def)
  have c: "terminalCounter (initializeTerminal c opts now s) = terminalCounter s + 1"
    using assms by (simp add: terminalCounter_initializeTerminal)
  have "\<exists>t'. map_of (terminals (initializeTerminal c opts now s)) c = Some t' \<and>
      name (state t') = ''Terminal '' @ decimal (terminalCounter s + 1)"
    using name_setActiveTerminal [OF m, of c] m n by (auto simp: init)
  then show ?thesis by (simp only: c)
qed

text \<open>
  Claim C10. No method call or message lowers \<^verbatim>\<open>terminalCounter\<close>. A session created
  without a name is called "Terminal N" with N the counter after its increment; of two such
  sessions, whatever happens between their creations (closing included), the later one gets
  the greater number, and so a different name.
\<close>

theorem default_names_never_reused:
  assumes "\<not> truthy_opt (opt_name optsA)" and "\<not> truthy_opt (opt_name optsB)"
    and "sA = initializeTerminal idA optsA nowA s"
    and "sB = initializeTerminal idB optsB nowB (exec evs sA)"
  shows "terminalCounter s \<le> terminalCounter (exec evs s) \<and>
         (\<exists>t. map_of (terminals sA) idA = Some t \<and>
              name (state t) = ''Terminal '' @ decimal (terminalCounter sA)) \<and>
         (\<exists>t. map_of (terminals sB) idB = Some t \<and>
              name (state t) = ''Terminal '' @ decimal (terminalCounter sB)) \<and>
         terminalCounter sA < terminalCounter sB \<and>
         decimal (terminalCounter sA) \<noteq> decimal (terminalCounter sB)"
proof -
  have "terminalCounter sA \<le> terminalCounter (exec evs sA)" by (rule terminalCounter_exec)
  also have "\<dots> < terminalCounter sB"
    using assms(2) by (simp add: assms(4) terminalCounter_initializeTerminal)
  finally have lt: "terminalCounter sA < terminalCounter sB" .
  then have "decimal (terminalCounter sA) \<noteq> decimal (terminalCounter sB)"
    using decimal_inj by fastforce
  with lt show ?thesis
    using name_initializeTerminal [OF assms(1)] name_initializeTerminal [OF assms(2)]
      terminalCounter_exec [of s evs]
    by (simp add: assms(3,4))
qed

text \<open>The theorem at the creation of A, its closing, and the creation of B.\<close>

theorem default_names_never_reused_witness:
  "\<not> truthy_opt (opt_name default_options) \<and>
   terminalCounter (initializeTerminal ''A'' default_options 1 new_TerminalManager) <
   terminalCounter (initializeTerminal ''B'' default_options 2
      (exec [CloseTerminal ''A''] (initializeTerminal ''A'' default_options 1 new_TerminalManager)))"
proof -
  have h: "\<not> truthy_opt (opt_name default_options)" by (simp add: default_options_def)
  from default_names_never_reused [where optsA = default_options and optsB = default_options
      and idA = "''A''" and nowA = 1 and s = new_TerminalManager and idB = "''B''" and nowB = 2
      and evs = "[CloseTerminal ''A'']", OF h h refl refl] h
  show ?thesis by blast
qed

subsection \<open>Creation order\<close>

lemma times_map_entry:
  "(\<And>t. createdAt (state (f t)) = createdAt (state t)) \<Longrightarrow>
   map (\<lambda>(k, t). (k, createdAt (state t))) (AList.map_entry c f ts) =
   map (\<lambda>(k, t). (k, createdAt (state t))) ts"
  by (induction ts) auto

lemma times_clear_container:
  "map (\<lambda>(k, t). (k, createdAt (state t))) (clear_container c ts) =
   map (\<lambda>(k, t). (k, createdAt (state t))) ts"
  by (induction ts) (auto simp: clear_container_def)

lemma times_update:
  "map (\<lambda>(k, t). (k, createdAt (state t))) (AList.update c t ts) =
   AList.update c (createdAt (state t)) (map (\<lambda>(k, t). (k, createdAt (state t))) ts)"
  by (induction ts) auto

lemma times_delete:
  "map (\<lambda>(k, t). (k, createdAt (state t))) (AList.delete c ts) =
   AList.delete c (map (\<lambda>(k, t). (k, createdAt (state t))) ts)"
  by (induction ts) auto

lemma creation_times_notify [simp]: "creation_times (notifyStateChange s) = creation_times s"
  by (simp add: creation_times_def)

lemma creation_times_setActiveTerminal [simp]:
  "creation_times (setActiveTerminal c s) = creation_times s"
  by (simp add: creation_times_def terminals_setActiveTerminal times_map_entry set_isActive_def
      split: option.splits)

lemma creation_times_closeTerminal:
  "creation_times (closeTerminal c s) = AList.delete c (creation_times s)"
proof (cases "map_of (terminals s) c")
  case None
  then have "c \<notin> fst ` set (creation_times s)"
    by (force simp: creation_times_def map_of_eq_None_iff)
  with None show ?thesis by (simp add: closeTerminal_def)
next
  case (Some t)
  have *: "creation_times s' = AList.delete c (creation_times s)"
    if "terminals s' = AList.delete c (terminals s)" for s'
    using that by (simp add: creation_times_def times_delete)
  show ?thesis using Some
    by (auto simp: closeTerminal_def Let_def intro!: *)
qed

lemma creation_times_initializeTerminal:
  "creation_times (initializeTerminal c opts now s) = AList.update c now (creation_times s)"
proof -
  have *: "creation_times (s'\<lparr>terminals := AList.update c t (terminals s)\<rparr>) =
      AList.update c now (creation_times s)" if "createdAt (state t) = now" for s' :: manager and t
    using that by (simp add: creation_times_def times_update)
  show ?thesis
    by (simp add: initializeTerminal_def Let_def) (auto intro!: * simp: creation_times_def times_update)
qed

lemma creation_times_map_entry:
  "(\<And>t. createdAt (state (f t)) = createdAt (state t)) \<Longrightarrow>
   creation_times (s\<lparr>terminals := AList.map_entry c f (terminals s)\<rparr>) = creation_times s"
  by (simp add: creation_times_def times_map_entry)

lemma creation_times_sendResize [simp]: "creation_times (sendResize c s) = creation_times s"
  by (simp add: sendResize_def creation_times_def split: option.splits)

lemma creation_times_fit_instance [simp]: "creation_times (fit_instance p c s) = creation_times s"
  by (simp add: fit_instance_def creation_times_map_entry)

lemma creation_times_fitAll_loop [simp]:
  "creation_times (fitAll_loop p es s) = creation_times s"
  by (induction p es s rule: fitAll_loop.induct) simp_all

lemma creation_times_others [simp]:
  "creation_times (snd (createTerminal opts s)) = creation_times s"
  "creation_times (mountTerminal c co s) = creation_times s"
  "creation_times (renameTerminal c n s) = creation_times s"
  "creation_times (setViewMode m s) = creation_times s"
  "creation_times (setGridLayout l s) = creation_times s"
  "creation_times (fitAll p s) = creation_times s"
  "creation_times (fitTerminal q c s) = creation_times s"
  "creation_times (writeToActive d s) = creation_times s"
  "creation_times (sendCommand d s) = creation_times s"
  "creation_times (on_data c d s) = creation_times s"
  "creation_times (on_TERMINAL_OUTPUT_ID c d s) = creation_times s"
  "creation_times (s\<lparr>onStateChange := b\<rparr>) = creation_times s"
  "creation_times (s\<lparr>terminals := clear_container k (terminals s)\<rparr>) = creation_times s"
proof -
  show "creation_times (snd (createTerminal opts s)) = creation_times s"
    by (simp add: createTerminal_def creation_times_def)
  show "creation_times (mountTerminal c co s) = creation_times s"
    by (simp add: mountTerminal_def creation_times_def times_map_entry times_clear_container
        split: option.splits)
  show "creation_times (renameTerminal c n s) = creation_times s"
    by (simp add: renameTerminal_def creation_times_map_entry set_name_def split: option.splits)
  show "creation_times (setViewMode m s) = creation_times s"
    by (simp add: setViewMode_def) (simp add: creation_times_def)
  show "creation_times (setGridLayout l s) = creation_times s"
    by (simp add: setGridLayout_def) (simp add: creation_times_def)
  show "creation_times (fitAll p s) = creation_times s"
    by (simp add: fitAll_def)
  show "creation_times (fitTerminal q c s) = creation_times s"
    by (simp add: fitTerminal_def split: option.splits)
  show "creation_times (writeToActive d s) = creation_times s"
    by (simp add: writeToActive_def creation_times_map_entry write_instance_def split: option.splits)
  show "creation_times (sendCommand d s) = creation_times s"
    by (simp add: sendCommand_def creation_times_def split: option.splits)
  show "creation_times (on_data c d s) = creation_times s"
    by (simp add: on_data_def creation_times_def split: option.splits)
  show "creation_times (on_TERMINAL_OUTPUT_ID c d s) = creation_times s"
    by (simp add: on_TERMINAL_OUTPUT_ID_def creation_times_map_entry write_instance_def)
  show "creation_times (s\<lparr>onStateChange := b\<rparr>) = creation_times s"
    by (simp add: creation_times_def)
  show "creation_times (s\<lparr>terminals := clear_container k (terminals s)\<rparr>) = creation_times s"
    by (simp add: creation_times_def times_clear_container)
qed

text \<open>An association list of times, in order, below a bound, to which the bound is added.\<close>

lemma sorted_update_bound:
  "sorted (map snd al) \<Longrightarrow> list_all (\<lambda>(k, c). c \<le> now) al \<Longrightarrow>
   (\<forall>c. map_of al i = Some c \<longrightarrow> c = now) \<Longrightarrow>
   sorted (map snd (AList.update i now al)) \<and> list_all (\<lambda>(k, c). c \<le> now) (AList.update i now al)"
proof (induction al)
  case Nil
  show ?case by simp
next
  case (Cons p al)
  show ?case
  proof (cases "fst p = i")
    case True
    with Cons.prems show ?thesis by (cases p) auto
  next
    case False
    with Cons.prems have "sorted (map snd (AList.update i now al)) \<and>
        list_all (\<lambda>(k, c). c \<le> now) (AList.update i now al)"
      by (intro Cons.IH) (auto split: if_splits)
    moreover have sub: "snd ` set (AList.update i now al) \<subseteq> insert now (snd ` set al)"
      by (induction al) auto
    have le_now: "snd p \<le> now" and le_all: "\<forall>x\<in>set al. snd p \<le> snd x"
      using Cons.prems(1,2) by (cases p; simp)+
    have "\<forall>x\<in>set (AList.update i now al). snd p \<le> snd x"
    proof
      fix x assume "x \<in> set (AList.update i now al)"
      then have "snd x \<in> snd ` set (AList.update i now al)" by (rule imageI)
      with sub have "snd x = now \<or> snd x \<in> snd ` set al" by blast
      with le_now le_all show "snd p \<le> snd x" by auto
    qed
    ultimately show ?thesis using False le_now by (cases p) simp
  qed
qed

lemma creation_ordered_fold_created_handler:
  "creation_ordered s \<Longrightarrow> list_all (\<lambda>(k, c). c \<le> now) (creation_times s) \<Longrightarrow>
   (\<forall>c. map_of (creation_times s) i = Some c \<longrightarrow> c = now) \<Longrightarrow>
   creation_ordered (fold (created_handler (Success i) now) hs s)"
proof (induction hs arbitrary: s)
  case Nil
  then show ?case by simp
next
  case (Cons h hs)
  let ?s' = "created_handler (Success i) now h s"
  have ct: "creation_times ?s' = AList.update i now (creation_times s)"
    by (simp add: created_handler_def Let_def creation_times_initializeTerminal)
       (simp add: creation_times_def)
  from sorted_update_bound [OF Cons.prems(1) [unfolded creation_ordered_def] Cons.prems(2,3)]
  have "creation_ordered ?s'" "list_all (\<lambda>(k, c). c \<le> now) (creation_times ?s')"
    by (simp_all add: creation_ordered_def ct)
  moreover have "\<forall>c. map_of (creation_times ?s') i = Some c \<longrightarrow> c = now"
    by (simp add: ct AList.update_conv')
  ultimately have "creation_ordered (fold (created_handler (Success i) now) hs ?s')"
    by (rule Cons.IH)
  then show ?case by simp
qed

lemma creation_times_fold_Failure [simp]:
  "creation_times (fold (created_handler (Failure err) now) hs s) = creation_times s"
  by (induction hs arbitrary: s) (simp_all add: created_handler_def Let_def creation_times_def)

lemma creation_ordered_step:
  assumes "creation_ordered s" and "fresh_and_later e s"
  shows "creation_ordered (step e s)"
proof (cases e)
  case (TerminalCreated r now)
  show ?thesis
  proof (cases r)
    case (Success i)
    with assms(2) TerminalCreated have "i \<notin> set (map fst (terminals s))"
      and b: "list_all (\<lambda>(k, c). c \<le> now) (creation_times s)" by simp_all
    then have "map_of (creation_times s) i = None"
      by (force simp: creation_times_def map_of_eq_None_iff)
    with assms(1) b show ?thesis
      by (simp add: TerminalCreated Success on_TERMINAL_CREATED_def
          creation_ordered_fold_created_handler)
  next
    case (Failure err)
    with assms(1) show ?thesis
      by (simp add: TerminalCreated on_TERMINAL_CREATED_def creation_ordered_def)
  qed
next
  case (CloseTerminal c)
  with assms(1) show ?thesis
    by (simp add: creation_ordered_def creation_times_closeTerminal AList.delete_eq sorted_filter)
next
  case (TerminalDestroyed c)
  with assms(1) show ?thesis
    by (simp add: creation_ordered_def on_TERMINAL_DESTROYED_def creation_times_closeTerminal
        AList.delete_eq sorted_filter)
qed (use assms(1) in \<open>simp_all add: creation_ordered_def\<close>)

lemma creation_ordered_exec:
  "creation_ordered s \<Longrightarrow> run_ok evs s \<Longrightarrow> creation_ordered (exec evs s)"
  unfolding exec_def by (induction evs arbitrary: s) (simp_all add: creation_ordered_step)

lemma creation_ordered_iff:
  "creation_ordered s \<longleftrightarrow> sorted (map (\<lambda>(k, t). createdAt (state t)) (terminals s))"
  by (simp add: creation_ordered_def creation_times_def comp_def case_prod_unfold)

subsection \<open>Closing the active session\<close>

lemma length_delete_present:
  assumes "distinct (map fst ts)" and "map_of ts c \<noteq> None"
  shows "length (AList.delete c ts) = length ts - 1"
proof -
  have "c \<in> set (map fst ts)" using assms(2) by (simp add: map_of_eq_None_iff)
  moreover have "length (AList.delete c ts) = length (removeAll c (map fst ts))"
    by (simp flip: AList.delete_keys)
  ultimately show ?thesis
    using assms(1) by (simp add: length_remove1 flip: distinct_remove1_removeAll)
qed

lemma map_of_last:
  assumes "distinct (map fst ts)" and "ts \<noteq> []"
  shows "map_of ts (fst (last ts)) = Some (snd (last ts))"
proof -
  have "(fst (last ts), snd (last ts)) \<in> set ts" using assms(2) by simp
  with assms(1) show ?thesis by (simp only: map_of_eq_Some_iff)
qed

lemma createdAt_map_entry:
  "map (\<lambda>(k, t). createdAt (state t)) (AList.map_entry c (set_isActive b) ts) =
   map (\<lambda>(k, t). createdAt (state t)) ts"
  by (induction ts) (auto simp: set_isActive_def)

lemma createdAt_setActiveTerminal:
  "map (\<lambda>(k, t). createdAt (state t)) (terminals (setActiveTerminal c s)) =
   map (\<lambda>(k, t). createdAt (state t)) (terminals s)"
  by (simp add: terminals_setActiveTerminal createdAt_map_entry split: option.splits)

lemma sorted_last_max: "sorted (map g xs) \<Longrightarrow> x \<in> set xs \<Longrightarrow> g x \<le> g (last xs)"
  by (induction xs) auto

lemma closeTerminal_active_switch:
  assumes "activeTerminalId s = Some c" and "map_of (terminals s) c \<noteq> None"
    and "AList.delete c (terminals s) \<noteq> []"
    and "truthy (fst (last (AList.delete c (terminals s))))"
  shows "closeTerminal c s =
     notifyStateChange
       (setActiveTerminal (fst (last (AList.delete c (terminals s))))
          (s\<lparr>disposed := disposed s @ [c], terminals := AList.delete c (terminals s),
             sent := sent s @ [TERMINAL_DESTROY c],
             activeTerminalId := Some (fst (last (AList.delete c (terminals s))))\<rparr>))"
  using assms by (auto simp: closeTerminal_def Let_def last_map)

lemma closeTerminal_active_last:
  assumes "activeTerminalId s = Some c" and "map_of (terminals s) c \<noteq> None"
    and "AList.delete c (terminals s) = []"
  shows "closeTerminal c s =
     notifyStateChange
       (s\<lparr>disposed := disposed s @ [c], terminals := [],
          sent := sent s @ [TERMINAL_DESTROY c], activeTerminalId := None\<rparr>)"
  using assms by (auto simp: closeTerminal_def Let_def)

text \<open>
  Claim C2. Let the registry be well formed and hold its sessions in the order of their
  \<^verbatim>\<open>createdAt\<close>, as it does in every run with fresh identifiers and a clock that does
  not go back, and let the active session be closed. When at least two sessions were registered, the session that becomes
  active is the remaining one inserted last: it is flagged active, it is the only one, and
  no remaining session has a later \<^verbatim>\<open>createdAt\<close>. When it was the only session, no
  identifier is active afterwards, no session is flagged, and the ordered list is empty.
\<close>

theorem closeTerminal_activates_latest:
  assumes "registry_ok s"
    and "creation_ordered s"
    and "activeTerminalId s = Some terminalId"
    and "map_of (terminals s) terminalId \<noteq> None"
    and "s' = closeTerminal terminalId s"
  shows "map fst (terminals s') = removeAll terminalId (map fst (terminals s)) \<and>
         (2 \<le> length (terminals s) \<longrightarrow>
            activeTerminalId s' = Some (fst (last (terminals s'))) \<and>
            fst (last (terminals s')) = last (removeAll terminalId (map fst (terminals s))) \<and>
            isActive (state (snd (last (terminals s')))) \<and>
            active_count s' = 1 \<and>
            (\<forall>(k, u)\<in>set (terminals s').
                createdAt (state u) \<le> createdAt (state (snd (last (terminals s')))))) \<and>
         (length (terminals s) = 1 \<longrightarrow>
            activeTerminalId s' = None \<and> active_count s' = 0 \<and> getTerminalStates s' = [])"
proof -
  let ?rest = "AList.delete terminalId (terminals s)"
  have d: "distinct (map fst (terminals s))" and f: "flags_ok (activeTerminalId s) (terminals s)"
    using assms(1) by (simp_all add: registry_ok_def)
  have srt: "sorted (map (\<lambda>(k, t). createdAt (state t)) (terminals s))"
    using assms(2) by (simp only: creation_ordered_iff)
  have keys: "map fst (terminals s') = removeAll terminalId (map fst (terminals s))"
    by (simp add: assms(5) closeTerminal_keys)
  have len: "length ?rest = length (terminals s) - 1"
    using d assms(4) by (rule length_delete_present)
  have one: "activeTerminalId s' = None \<and> active_count s' = 0 \<and> getTerminalStates s' = []"
    if "length (terminals s) = 1"
  proof -
    from that len have "?rest = []" by simp
    from closeTerminal_active_last [OF assms(3,4) this]
    show ?thesis by (simp add: assms(5) active_count_def getTerminalStates_def)
  qed
  have two: "activeTerminalId s' = Some (fst (last (terminals s'))) \<and>
            fst (last (terminals s')) = last (removeAll terminalId (map fst (terminals s))) \<and>
            isActive (state (snd (last (terminals s')))) \<and>
            active_count s' = 1 \<and>
            (\<forall>(k, u)\<in>set (terminals s').
                createdAt (state u) \<le> createdAt (state (snd (last (terminals s')))))"
    if "2 \<le> length (terminals s)"
  proof -
    let ?l = "fst (last ?rest)"
    let ?s1 = "s\<lparr>disposed := disposed s @ [terminalId], terminals := ?rest,
                 sent := sent s @ [TERMINAL_DESTROY terminalId], activeTerminalId := Some ?l\<rparr>"
    from that len have ne: "?rest \<noteq> []" by auto
    have drest: "distinct (map fst ?rest)" using d by (rule AList.distinct_delete)
    have "last ?rest \<in> set (terminals s)" using ne last_in_set [OF ne] by (auto simp: AList.delete_eq)
    then have tl: "truthy ?l" using f by (auto simp: flags_ok_def)
    have s': "s' = notifyStateChange (setActiveTerminal ?l ?s1)"
      unfolding assms(5) using assms(3,4) ne tl by (rule closeTerminal_active_switch)
    have ok1: "registry_ok ?s1"
      using d f drest by (simp add: registry_ok_def assms(3) flags_ok_delete_active)
    have ml: "map_of ?rest ?l = Some (snd (last ?rest))" using drest ne by (rule map_of_last)
    have ne': "terminals s' \<noteq> []" using keys ne by (auto simp flip: AList.delete_keys)
    have fl: "fst (last (terminals s')) = last (removeAll terminalId (map fst (terminals s)))"
      using ne' by (simp flip: keys add: last_map)
    have fl': "fst (last (terminals s')) = ?l"
      using fl ne by (simp add: last_map flip: AList.delete_keys)
    have act: "activeTerminalId s' = Some (fst (last (terminals s')))"
      by (simp only: fl') (simp add: s')
    have cnt: "active_count s' = 1"
      using active_count_setActiveTerminal [OF ok1, of ?l] ml by (simp add: s' active_count_def)
    have ds': "distinct (map fst (terminals s'))" using d by (simp add: keys distinct_removeAll)
    obtain t' where t': "map_of (terminals s') ?l = Some t'" "isActive (state t')"
      using isActive_setActiveTerminal [of ?s1 ?l] ml by (auto simp: s')
    have "map_of (terminals s') (fst (last (terminals s'))) = Some (snd (last (terminals s')))"
      using ds' ne' by (rule map_of_last)
    with t' fl' have flag: "isActive (state (snd (last (terminals s'))))" by simp
    have "map (\<lambda>(k, t). createdAt (state t)) (terminals s') =
          map (\<lambda>(k, t). createdAt (state t)) ?rest"
      by (simp add: s' createdAt_setActiveTerminal)
    moreover have "sorted (map (\<lambda>(k, t). createdAt (state t)) ?rest)"
      using srt by (simp add: AList.delete_eq sorted_filter)
    ultimately have "sorted (map (\<lambda>(k, t). createdAt (state t)) (terminals s'))" by simp
    then have mx: "\<forall>(k, u)\<in>set (terminals s').
        createdAt (state u) \<le> createdAt (state (snd (last (terminals s'))))"
      using sorted_last_max [of "\<lambda>(k, t). createdAt (state t)" "terminals s'"]
      by (auto simp: case_prod_unfold)
    from act fl flag cnt mx show ?thesis by blast
  qed
  from keys one two show ?thesis by blast
qed

text \<open>The theorem at the run that creates A, B and C in this order and activates B:
  closing B makes C active.\<close>

theorem closeTerminal_activates_latest_witness:
  "registry_ok (exec (create_events ''A'' 1 @ create_events ''B'' 2 @ create_events ''C'' 3 @
       [SetActiveTerminal ''B'']) new_TerminalManager) \<and>
   creation_ordered (exec (create_events ''A'' 1 @ create_events ''B'' 2 @ create_events ''C'' 3 @
       [SetActiveTerminal ''B'']) new_TerminalManager) \<and>
   activeTerminalId (exec (create_events ''A'' 1 @ create_events ''B'' 2 @ create_events ''C'' 3 @
       [SetActiveTerminal ''B'']) new_TerminalManager) = Some ''B'' \<and>
   activeTerminalId (closeTerminal ''B''
      (exec (create_events ''A'' 1 @ create_events ''B'' 2 @ create_events ''C'' 3 @
         [SetActiveTerminal ''B'']) new_TerminalManager)) = Some ''C'' \<and>
   active_count (closeTerminal ''B''
      (exec (create_events ''A'' 1 @ create_events ''B'' 2 @ create_events ''C'' 3 @
         [SetActiveTerminal ''B'']) new_TerminalManager)) = 1"
proof -
  let ?evs = "create_events ''A'' 1 @ create_events ''B'' 2 @ create_events ''C'' 3 @
       [SetActiveTerminal ''B'']"
  let ?s = "exec ?evs new_TerminalManager"
  have "list_all host_id_ok ?evs" by (simp add: create_events_def truthy_def)
  with registry_ok_new have ok: "registry_ok ?s" by (rule registry_ok_exec)
  have "creation_ordered new_TerminalManager"
    by (simp add: creation_ordered_def creation_times_def new_TerminalManager_def)
  moreover have "run_ok ?evs new_TerminalManager" by code_simp
  ultimately have srt: "creation_ordered ?s" by (rule creation_ordered_exec)
  have act: "activeTerminalId ?s = Some ''B''" by code_simp
  have reg: "map_of (terminals ?s) ''B'' \<noteq> None" by code_simp
  have keys: "map fst (terminals ?s) = [''A'', ''B'', ''C'']" by code_simp
  have len: "2 \<le> length (terminals ?s)" using arg_cong [OF keys, of length] by simp
  have lst: "last (removeAll ''B'' (map fst (terminals ?s))) = ''C''" unfolding keys by simp
  from closeTerminal_activates_latest [OF ok srt act reg refl] len
  have "activeTerminalId (closeTerminal ''B'' ?s) = Some (fst (last (terminals (closeTerminal ''B'' ?s))))"
    and "fst (last (terminals (closeTerminal ''B'' ?s))) = last (removeAll ''B'' (map fst (terminals ?s)))"
    and cnt: "active_count (closeTerminal ''B'' ?s) = 1"
    by blast+
  with lst have "activeTerminalId (closeTerminal ''B'' ?s) = Some ''C''" by simp
  with ok srt act cnt show ?thesis by blast
qed

end
